(* ===== verification/Go_Prelude.thy ===== *)
theory Go_Prelude
  imports Main "HOL-Library.Word" "HOL-Library.Monad_Syntax"
begin

text \<open>
  What every component of the model shares.

  \<^item> A Go \<open>string\<close> and a Go \<open>[]byte\<close> are both a HOL \<open>string\<close>: a HOL
    \<open>char\<close> is exactly one byte (0 to 255), so \<open>len\<close> is \<open>length\<close> and the
    conversions between the two Go types are the identity. Where the code tells a
    \<open>nil\<close> slice or map from an empty one, the model uses \<open>option\<close>.
  \<^item> A Go \<open>error\<close> value is a \<open>gerr\<close>; \<open>err_text\<close> is its \<open>Error()\<close>
    method. A call returning \<open>(T, error)\<close> returns \<open>gerr + 'a\<close>, a call returning
    only \<open>error\<close> returns \<open>gerr option\<close> (\<open>None\<close> is \<open>nil\<close>).
  \<^item> A Go run-time panic (index or slice out of range) is \<open>None\<close> of an \<open>option\<close>
    around the result, so that every panic is a branch of the model.
  \<^item> Big-endian integers of \<open>encoding/binary\<close>, on \<open>32 word\<close> and \<open>16 word\<close>.
\<close>

section \<open>Shared collections\<close>

named_theorems go_string \<open>characteristic equations of the string library\<close>
named_theorems go_frame \<open>facts about encoded messages and the buffers they are built in\<close>
named_theorems go_state \<open>which fields an operation leaves alone\<close>

section \<open>Bytes and errors\<close>

type_synonym bytes = string

abbreviation byte_val :: "char \<Rightarrow> nat" where
  "byte_val c \<equiv> of_char c"

abbreviation byte_of :: "nat \<Rightarrow> char" where
  "byte_of n \<equiv> char_of n"

abbreviation NUL :: char where
  "NUL \<equiv> CHR 0x00"

datatype gerr =
    EOF
  | UnexpectedEOF
  | ErrMsg string
  | Wrapped string gerr

primrec err_text :: "gerr \<Rightarrow> string" where
  "err_text EOF = ''EOF''"
| "err_text UnexpectedEOF = ''unexpected EOF''"
| "err_text (ErrMsg m) = m"
| "err_text (Wrapped p e) = p @ err_text e"

text \<open>The error at the end of a chain of \<open>%w\<close> wrappings.\<close>

primrec err_root :: "gerr \<Rightarrow> gerr" where
  "err_root EOF = EOF"
| "err_root UnexpectedEOF = UnexpectedEOF"
| "err_root (ErrMsg m) = ErrMsg m"
| "err_root (Wrapped p e) = err_root e"

lemma byte_of_eq_iff:
  "byte_of n = c \<longleftrightarrow> n mod 256 = byte_val c" "c = byte_of n \<longleftrightarrow> n mod 256 = byte_val c"
  using char_of_eq_iff [of n c] by (auto simp: take_bit_eq_mod)

section \<open>Lists\<close>

lemma dropWhile_hd_False: "dropWhile P xs = y # ys \<Longrightarrow> \<not> P y"
  by (metis hd_dropWhile list.distinct(1) list.sel(1))

lemma dropWhile_append_hd: "xs \<noteq> [] \<Longrightarrow> \<not> P (hd xs) \<Longrightarrow> (\<forall>y\<in>set ys. P y) \<Longrightarrow> dropWhile P (ys @ xs) = xs"
  by (cases xs) (auto simp: dropWhile_append2)

lemma takeWhile_append_hd: "xs \<noteq> [] \<Longrightarrow> \<not> P (hd xs) \<Longrightarrow> (\<forall>y\<in>set ys. P y) \<Longrightarrow> takeWhile P (ys @ xs) = ys"
  by (cases xs) (auto simp: takeWhile_append2)

lemma list_all2_in_set: "list_all2 P xs ys \<Longrightarrow> y \<in> set ys \<Longrightarrow> \<exists>x \<in> set xs. P x y"
  by (induction xs ys rule: list_all2_induct) auto

section \<open>Big-endian integers\<close>

definition be32 :: "32 word \<Rightarrow> bytes" where
  "be32 w = [byte_of (unat w div 2 ^ 24), byte_of (unat w div 2 ^ 16),
             byte_of (unat w div 2 ^ 8), byte_of (unat w)]"

definition be16 :: "16 word \<Rightarrow> bytes" where
  "be16 w = [byte_of (unat w div 2 ^ 8), byte_of (unat w)]"

fun get_be32 :: "bytes \<Rightarrow> 32 word option" where
  "get_be32 (a # b # c # d # _) =
     Some (word_of_nat (((byte_val a * 256 + byte_val b) * 256 + byte_val c) * 256 + byte_val d))"
| "get_be32 _ = None"

fun get_be16 :: "bytes \<Rightarrow> 16 word option" where
  "get_be16 (a # b # _) = Some (word_of_nat (byte_val a * 256 + byte_val b))"
| "get_be16 _ = None"

lemma length_be32 [simp, go_frame]: "length (be32 w) = 4"
  by (simp add: be32_def)

lemma length_be16 [simp, go_frame]: "length (be16 w) = 2"
  by (simp add: be16_def)

lemma horner_bytes:
  fixes n :: nat
  assumes "n < 2 ^ 32"
  shows "((n div 2 ^ 24 mod 256 * 256 + n div 2 ^ 16 mod 256) * 256 + n div 2 ^ 8 mod 256) * 256
    + n mod 256 = n"
proof -
  have "n div 2 ^ 24 mod 256 = n div 2 ^ 24"
    using assms by (simp add: less_mult_imp_div_less)
  moreover have "n div 2 ^ 24 * 256 + n div 2 ^ 16 mod 256 = n div 2 ^ 16"
    using div_mult_mod_eq [of "n div 2 ^ 16" 256] by (simp add: div_mult2_eq [symmetric])
  moreover have "n div 2 ^ 16 * 256 + n div 2 ^ 8 mod 256 = n div 2 ^ 8"
    using div_mult_mod_eq [of "n div 2 ^ 8" 256] by (simp add: div_mult2_eq [symmetric])
  moreover have "n div 2 ^ 8 * 256 + n mod 256 = n"
    using div_mult_mod_eq [of n 256] by simp
  ultimately show ?thesis
    by presburger
qed

lemma get_be32_be32 [simp, go_frame]: "get_be32 (be32 w @ rest) = Some w"
proof -
  have "unat w < 2 ^ 32"
    using unsigned_less [of w, where ?'a = nat] by simp
  then show ?thesis
    by (simp only: be32_def append_Cons get_be32.simps of_char_of horner_bytes of_nat_unat ucast_id)
qed

lemma get_be16_be16 [simp, go_frame]: "get_be16 (be16 w @ rest) = Some w"
proof -
  have "unat w < 65536"
    using unsigned_less [of w, where ?'a = nat] by simp
  then have "unat w div 2 ^ 8 mod 256 = unat w div 2 ^ 8"
    by (simp add: less_mult_imp_div_less)
  then show ?thesis
    using div_mult_mod_eq [of "unat w" 256] by (simp add: be16_def)
qed

text \<open>The other direction: writing what was read gives the bytes back.\<close>

lemma horner_digits:
  fixes a b c d :: nat
  assumes "a < 256" "b < 256" "c < 256" "d < 256"
  defines "n \<equiv> ((a * 256 + b) * 256 + c) * 256 + d"
  shows "n < 2 ^ 32" "n div 2 ^ 24 = a" "n div 2 ^ 16 mod 256 = b" "n div 2 ^ 8 mod 256 = c"
    "n mod 256 = d"
proof -
  have 1: "n div 256 = (a * 256 + b) * 256 + c"
    using assms(4) by (simp add: n_def)
  then have 2: "n div 65536 = a * 256 + b"
    using assms(3) div_mult2_eq [of n 256 256] by simp
  then have 3: "n div 16777216 = a"
    using assms(2) div_mult2_eq [of n 65536 256] by simp
  show "n < 2 ^ 32" using assms by simp
  show "n div 2 ^ 24 = a" using 3 by simp
  show "n div 2 ^ 16 mod 256 = b"
    using 2 mod_mult_self3 [of a 256 b] assms(2) by simp
  show "n div 2 ^ 8 mod 256 = c"
    using mod_mult_self3 [of "a * 256 + b" 256 c] assms(3) unfolding 1 [symmetric] by simp
  show "n mod 256 = d"
    using mod_mult_self3 [of "(a * 256 + b) * 256 + c" 256 d] assms(4) unfolding n_def by simp
qed

lemma be32_get_be32:
  assumes "get_be32 [a, b, c, d] = Some w"
  shows "be32 w = [a, b, c, d]"
proof -
  let ?n = "((byte_val a * 256 + byte_val b) * 256 + byte_val c) * 256 + byte_val d :: nat"
  note digits = horner_digits [OF nat_of_char_less_256 nat_of_char_less_256 nat_of_char_less_256
      nat_of_char_less_256, of a b c d]
  have "w = word_of_nat ?n"
    using assms by (simp only: get_be32.simps option.inject)
  then have u: "unat w = ?n"
    using digits(1) by (simp only: unat_of_nat take_bit_nat_eq_self) (simp add: take_bit_nat_eq_self)
  show ?thesis
    unfolding be32_def u by (simp only: digits byte_of_eq_iff list.inject) (simp add: digits)
qed

end
