(* ===== verification/Go_Strings.thy ===== *)
theory Go_Strings
  imports Go_Prelude
begin

text \<open>
  The part of Go's \<open>unicode/utf8\<close>, \<open>unicode\<close> and \<open>strings\<close> packages the
  program calls, on byte strings: UTF-8 decoding and encoding as Go does it (an invalid byte
  is the rune U+FFFD of width 1), \<open>TrimSpace\<close>, \<open>ToUpper\<close>, \<open>ToLower\<close>,
  \<open>HasPrefix\<close>, \<open>IndexByte\<close>, \<open>Contains\<close>, \<open>Split\<close>, \<open>Join\<close> and
  \<open>ReplaceAll\<close>. The case mapping of runes outside ASCII is a table of Go's
  \<open>unicode\<close> package; it is a parameter \<open>up\<close> (or \<open>lo\<close>) of the definitions, and
  no theorem assumes anything of it.
\<close>

section \<open>UTF-8\<close>

definition rune_error :: nat where
  "rune_error = 65533"

definition cont_byte :: "char \<Rightarrow> bool" where
  "cont_byte c \<longleftrightarrow> 128 \<le> byte_val c \<and> byte_val c \<le> 191"

text \<open>The accept range of the second byte, by the first byte.\<close>

definition accept_lo :: "nat \<Rightarrow> nat" where
  "accept_lo b = (if b = 224 then 160 else if b = 240 then 144 else 128)"

definition accept_hi :: "nat \<Rightarrow> nat" where
  "accept_hi b = (if b = 237 then 159 else if b = 244 then 143 else 191)"

definition decode_rune :: "bytes \<Rightarrow> nat \<times> nat" where
  "decode_rune s = (case s of [] \<Rightarrow> (rune_error, 0) | c0 # s1 \<Rightarrow>
     let b0 = byte_val c0 in
     if b0 < 128 then (b0, 1)
     else if 194 \<le> b0 \<and> b0 \<le> 223 then
       (case s1 of
          c1 # _ \<Rightarrow> if cont_byte c1 then ((b0 - 192) * 64 + (byte_val c1 - 128), 2)
                    else (rune_error, 1)
        | _ \<Rightarrow> (rune_error, 1))
     else if 224 \<le> b0 \<and> b0 \<le> 239 then
       (case s1 of
          c1 # c2 # _ \<Rightarrow>
            if accept_lo b0 \<le> byte_val c1 \<and> byte_val c1 \<le> accept_hi b0 \<and> cont_byte c2
            then ((b0 - 224) * 4096 + (byte_val c1 - 128) * 64 + (byte_val c2 - 128), 3)
            else (rune_error, 1)
        | _ \<Rightarrow> (rune_error, 1))
     else if 240 \<le> b0 \<and> b0 \<le> 244 then
       (case s1 of
          c1 # c2 # c3 # _ \<Rightarrow>
            if accept_lo b0 \<le> byte_val c1 \<and> byte_val c1 \<le> accept_hi b0
               \<and> cont_byte c2 \<and> cont_byte c3
            then ((b0 - 240) * 262144 + (byte_val c1 - 128) * 4096
                  + (byte_val c2 - 128) * 64 + (byte_val c3 - 128), 4)
            else (rune_error, 1)
        | _ \<Rightarrow> (rune_error, 1))
     else (rune_error, 1))"

text \<open>\<open>for _, r := range s\<close>.\<close>

fun runes :: "bytes \<Rightarrow> nat list" where
  "runes [] = []"
| "runes (c # cs) =
     fst (decode_rune (c # cs)) # runes (drop (snd (decode_rune (c # cs)) - 1) cs)"

definition encode_rune :: "nat \<Rightarrow> bytes" where
  "encode_rune r =
     (if r < 128 then [byte_of r]
      else if r < 2048 then [byte_of (192 + r div 64), byte_of (128 + r mod 64)]
      else if (55296 \<le> r \<and> r \<le> 57343) \<or> 1114111 < r then
        [byte_of 239, byte_of 191, byte_of 189]
      else if r < 65536 then
        [byte_of (224 + r div 4096), byte_of (128 + r div 64 mod 64), byte_of (128 + r mod 64)]
      else [byte_of (240 + r div 262144), byte_of (128 + r div 4096 mod 64),
            byte_of (128 + r div 64 mod 64), byte_of (128 + r mod 64)])"

lemma decode_rune_ascii [simp, go_string]:
  "byte_val c < 128 \<Longrightarrow> decode_rune (c # cs) = (byte_val c, 1)"
  by (simp add: decode_rune_def)

lemma decode_rune_width:
  assumes "decode_rune (c # cs) = (r, n)"
  shows "1 \<le> n" and "n \<le> Suc (length cs)"
  using assms unfolding decode_rune_def Let_def
  by (auto split: if_splits list.splits)

lemma decode_rune_width_pos: "1 \<le> snd (decode_rune (c # cs))"
  using decode_rune_width(1) [of c cs] by (metis prod.collapse)

text \<open>A rune below 128 is its own byte, and every byte of a wider rune is at least 128.\<close>

lemma decode_rune_low:
  assumes "decode_rune (c # cs) = (r, n)" and "r < 128"
  shows "byte_val c = r \<and> n = 1"
  using assms unfolding decode_rune_def Let_def
  by (auto simp: rune_error_def accept_lo_def cont_byte_def split: if_splits list.splits)

lemma decode_rune_high:
  assumes "decode_rune (c # cs) = (r, n)" and "\<not> byte_val c < 128"
  shows "\<forall>x \<in> set (take n (c # cs)). 128 \<le> byte_val x"
  using assms unfolding decode_rune_def Let_def
  by (auto simp: accept_lo_def cont_byte_def split: if_splits list.splits)

lemma encode_rune_ascii [simp, go_string]: "r < 128 \<Longrightarrow> encode_rune r = [byte_of r]"
  by (simp add: encode_rune_def)

lemma runes_ascii:
  assumes "\<forall>c \<in> set s. byte_val c < 128"
  shows "runes s = map byte_val s"
  using assms by (induction s) simp_all

section \<open>White space\<close>

text \<open>\<open>unicode.IsSpace\<close>.\<close>

definition unicode_space :: "nat \<Rightarrow> bool" where
  "unicode_space r \<longleftrightarrow> (9 \<le> r \<and> r \<le> 13) \<or> r = 32 \<or> r = 133 \<or> r = 160 \<or> r = 5760
     \<or> (8192 \<le> r \<and> r \<le> 8202) \<or> r = 8232 \<or> r = 8233 \<or> r = 8239 \<or> r = 8287 \<or> r = 12288"

definition ascii_space :: "char \<Rightarrow> bool" where
  "ascii_space c \<longleftrightarrow> (9 \<le> byte_val c \<and> byte_val c \<le> 13) \<or> byte_val c = 32"

text \<open>A byte that no trimming of white space can remove.\<close>

definition solid :: "char \<Rightarrow> bool" where
  "solid c \<longleftrightarrow> byte_val c < 128 \<and> \<not> ascii_space c"

fun trim_left :: "bytes \<Rightarrow> bytes" where
  "trim_left [] = []"
| "trim_left (c # cs) =
     (if unicode_space (fst (decode_rune (c # cs)))
      then trim_left (drop (snd (decode_rune (c # cs)) - 1) cs)
      else c # cs)"

text \<open>\<open>utf8.DecodeLastRuneInString\<close>: look back at most four bytes for a byte that starts a
  rune, and accept the rune that starts there if it reaches the end of the string.\<close>

definition decode_last_rune :: "bytes \<Rightarrow> nat \<times> nat" where
  "decode_last_rune s =
     (if s = [] then (rune_error, 0)
      else if byte_val (last s) < 128 then (byte_val (last s), 1)
      else (case find (\<lambda>k. k \<le> length s \<and> \<not> cont_byte (s ! (length s - k))) [2, 3, 4] of
              None \<Rightarrow> (rune_error, 1)
            | Some k \<Rightarrow>
                (let (r, n) = decode_rune (drop (length s - k) s)
                 in if n = k then (r, k) else (rune_error, 1))))"

lemma decode_last_rune_width_pos: "s \<noteq> [] \<Longrightarrow> 1 \<le> snd (decode_last_rune s)"
  by (auto simp: decode_last_rune_def Let_def split: option.splits prod.splits if_splits)

function trim_right :: "bytes \<Rightarrow> bytes" where
  "trim_right s =
     (if s \<noteq> [] \<and> unicode_space (fst (decode_last_rune s))
      then trim_right (take (length s - snd (decode_last_rune s)) s)
      else s)"
  by pat_completeness auto
termination
proof (relation "measure length")
  fix s :: bytes
  assume "s \<noteq> [] \<and> unicode_space (fst (decode_last_rune s))"
  then show "(take (length s - snd (decode_last_rune s)) s, s) \<in> measure length"
    using decode_last_rune_width_pos [of s] by (cases s) auto
qed simp

declare trim_right.simps [simp del]

text \<open>\<open>strings.TrimSpace\<close>.\<close>

definition trim_space :: "bytes \<Rightarrow> bytes" where
  "trim_space s = trim_right (trim_left s)"

lemma unicode_space_ascii:
  "byte_val c < 128 \<Longrightarrow> unicode_space (byte_val c) \<longleftrightarrow> ascii_space c"
  by (auto simp: unicode_space_def ascii_space_def)

lemma trim_left_solid [simp, go_string]: "solid c \<Longrightarrow> trim_left (c # cs) = c # cs"
  by (simp add: solid_def unicode_space_ascii)

lemma ascii_space_low: "ascii_space c \<Longrightarrow> byte_val c < 128"
  by (auto simp: ascii_space_def)

lemma trim_left_ascii_space [simp, go_string]:
  "ascii_space c \<Longrightarrow> trim_left (c # cs) = trim_left cs"
  by (simp add: ascii_space_low unicode_space_ascii)

text \<open>The bytes of a white-space rune are white space or at least 128.\<close>

lemma space_rune_not_solid:
  assumes "decode_rune (c # cs) = (r, n)" and "unicode_space r" and "x \<in> set (take n (c # cs))"
  shows "\<not> solid x"
proof (cases "byte_val c < 128")
  case True
  with assms show ?thesis
    by (auto simp: unicode_space_ascii solid_def)
next
  case False
  with decode_rune_high [OF assms(1)] assms(3) show ?thesis
    by (auto simp: solid_def)
qed

lemma trim_left_decomp: "\<exists>t. s = t @ trim_left s \<and> (\<forall>x \<in> set t. \<not> solid x)"
proof (induction s rule: trim_left.induct)
  case 1
  show ?case by simp
next
  case (2 c cs)
  obtain r n where d: "decode_rune (c # cs) = (r, n)"
    by (cases "decode_rune (c # cs)")
  show ?case
  proof (cases "unicode_space r")
    case True
    with 2 d obtain t where t: "drop (n - 1) cs = t @ trim_left (drop (n - 1) cs)"
      and ns: "\<forall>x \<in> set t. \<not> solid x"
      by auto
    have "1 \<le> n"
      using decode_rune_width(1) [OF d] .
    then have "c # cs = take n (c # cs) @ drop (n - 1) cs"
      by (cases n) auto
    then have "c # cs = (take n (c # cs) @ t) @ trim_left (c # cs)"
      using t True d by (metis append.assoc fst_conv snd_conv trim_left.simps(2))
    moreover have "\<forall>x \<in> set (take n (c # cs) @ t). \<not> solid x"
      using space_rune_not_solid [OF d True] ns by auto
    ultimately show ?thesis
      by blast
  next
    case False
    with d show ?thesis
      by (intro exI [of _ "[]"]) simp
  qed
qed

declare trim_left.simps(2) [simp del]

lemma decode_last_rune_not_solid:
  assumes "decode_last_rune s = (r, n)" and "unicode_space r" and "s \<noteq> []"
  shows "\<forall>x \<in> set (drop (length s - n) s). \<not> solid x"
proof (cases "byte_val (last s) < 128")
  case True
  with assms have "r = byte_val (last s)" and "n = 1"
    by (auto simp: decode_last_rune_def)
  moreover have "drop (length s - 1) s = [last s]"
    using assms(3) by (metis append_butlast_last_id append_eq_conv_conj length_butlast)
  ultimately show ?thesis
    using assms(2) True by (auto simp: unicode_space_ascii solid_def)
next
  case False
  have ne: "r \<noteq> rune_error"
    using assms(2) by (auto simp: unicode_space_def rune_error_def)
  with assms False have d: "decode_rune (drop (length s - n) s) = (r, n)"
    by (auto simp: decode_last_rune_def Let_def split: option.splits prod.splits if_splits)
  show ?thesis
  proof (cases "drop (length s - n) s")
    case Nil
    then show ?thesis by simp
  next
    case (Cons c cs)
    have "length (c # cs) \<le> n"
      by (simp add: Cons [symmetric])
    then have "take n (c # cs) = c # cs"
      by simp
    with space_rune_not_solid [of c cs r n] d assms(2) Cons show ?thesis
      by simp
  qed
qed

lemma trim_right_decomp: "\<exists>t. s = trim_right s @ t \<and> (\<forall>x \<in> set t. \<not> solid x)"
proof (induction s rule: trim_right.induct)
  case (1 s)
  show ?case
  proof (cases "s \<noteq> [] \<and> unicode_space (fst (decode_last_rune s))")
    case True
    let ?k = "length s - snd (decode_last_rune s)"
    from 1 True obtain t where "take ?k s = trim_right (take ?k s) @ t"
      and "\<forall>x \<in> set t. \<not> solid x"
      by blast
    moreover have "trim_right s = trim_right (take ?k s)"
      using True by (subst trim_right.simps) simp
    moreover have "\<forall>x \<in> set (drop ?k s). \<not> solid x"
      using decode_last_rune_not_solid [of s] True by (metis prod.collapse)
    ultimately show ?thesis
      by (intro exI [of _ "t @ drop ?k s"])
        (metis append.assoc append_take_drop_id Un_iff set_append)
  next
    case False
    then show ?thesis
      by (intro exI [of _ "[]"]) (auto simp: trim_right.simps [of s])
  qed
qed

lemma trim_right_keep:
  assumes "solid x"
  shows "\<exists>zs t. trim_right (xs @ x # ys) = xs @ x # zs \<and> ys = zs @ t \<and> (\<forall>y \<in> set t. \<not> solid y)"
proof -
  obtain t where t: "xs @ x # ys = trim_right (xs @ x # ys) @ t" and ns: "\<forall>y \<in> set t. \<not> solid y"
    using trim_right_decomp [of "xs @ x # ys"] by blast
  then have split: "(xs @ [x]) @ ys = trim_right (xs @ x # ys) @ t"
    by simp
  consider us where "xs @ [x] = trim_right (xs @ x # ys) @ us" "us @ ys = t"
    | us where "trim_right (xs @ x # ys) = (xs @ [x]) @ us" "ys = us @ t"
    using iffD1 [OF append_eq_append_conv2 split] by metis
  then show ?thesis
  proof cases
    case 1
    have "us = []"
    proof (rule ccontr)
      assume "us \<noteq> []"
      then have "x = last us"
        using 1(1) by (metis last_appendR last_snoc)
      then show False
        using \<open>us \<noteq> []\<close> 1(2) ns assms by auto
    qed
    with 1 ns show ?thesis
      by (intro exI [of _ "[]"] exI [of _ t]) simp
  next
    case 2
    with ns show ?thesis
      by auto
  qed
qed

section \<open>Case mapping\<close>

definition rune_upper :: "(nat \<Rightarrow> nat) \<Rightarrow> nat \<Rightarrow> nat" where
  "rune_upper up r = (if r < 128 then (if 97 \<le> r \<and> r \<le> 122 then r - 32 else r) else up r)"

definition rune_lower :: "(nat \<Rightarrow> nat) \<Rightarrow> nat \<Rightarrow> nat" where
  "rune_lower lo r = (if r < 128 then (if 65 \<le> r \<and> r \<le> 90 then r + 32 else r) else lo r)"

text \<open>\<open>strings.Map\<close>; its shortcuts for unchanged and for ASCII strings give the same bytes.\<close>

definition map_runes :: "(nat \<Rightarrow> nat) \<Rightarrow> bytes \<Rightarrow> bytes" where
  "map_runes f s = concat (map (\<lambda>r. encode_rune (f r)) (runes s))"

definition to_upper :: "(nat \<Rightarrow> nat) \<Rightarrow> bytes \<Rightarrow> bytes" where
  "to_upper up s = map_runes (rune_upper up) s"

definition to_lower :: "(nat \<Rightarrow> nat) \<Rightarrow> bytes \<Rightarrow> bytes" where
  "to_lower lo s = map_runes (rune_lower lo) s"

definition ascii_upper :: "char \<Rightarrow> char" where
  "ascii_upper c = byte_of (rune_upper id (byte_val c))"

definition ascii_lower :: "char \<Rightarrow> char" where
  "ascii_lower c = byte_of (rune_lower id (byte_val c))"

definition all_ascii :: "bytes \<Rightarrow> bool" where
  "all_ascii s \<longleftrightarrow> (\<forall>c \<in> set s. byte_val c < 128)"

lemma all_ascii_simps [simp]:
  "all_ascii []" "all_ascii (c # s) \<longleftrightarrow> byte_val c < 128 \<and> all_ascii s"
  "all_ascii (s @ t) \<longleftrightarrow> all_ascii s \<and> all_ascii t"
  by (auto simp: all_ascii_def)

lemma to_upper_ascii [go_string]: "all_ascii s \<Longrightarrow> to_upper up s = map ascii_upper s"
  by (induction s)
    (auto simp: to_upper_def map_runes_def rune_upper_def ascii_upper_def)

lemma to_lower_ascii [go_string]: "all_ascii s \<Longrightarrow> to_lower lo s = map ascii_lower s"
  by (induction s)
    (auto simp: to_lower_def map_runes_def rune_lower_def ascii_lower_def)

lemma ascii_upper_ascii: "byte_val c < 128 \<Longrightarrow> byte_val (ascii_upper c) < 128"
  by (auto simp: ascii_upper_def rune_upper_def)

lemma ascii_lower_ascii: "byte_val c < 128 \<Longrightarrow> byte_val (ascii_lower c) < 128"
  by (auto simp: ascii_lower_def rune_lower_def)

lemma ascii_upper_idem [simp]: "ascii_upper (ascii_upper c) = ascii_upper c"
  by (auto simp: ascii_upper_def rune_upper_def)

lemma ascii_lower_idem [simp]: "ascii_lower (ascii_lower c) = ascii_lower c"
  by (auto simp: ascii_lower_def rune_lower_def)

section \<open>Searching, splitting and joining\<close>

definition has_prefix :: "bytes \<Rightarrow> bytes \<Rightarrow> bool" where
  "has_prefix s p \<longleftrightarrow> take (length p) s = p"

fun index_byte :: "bytes \<Rightarrow> char \<Rightarrow> nat option" where
  "index_byte [] c = None"
| "index_byte (x # xs) c = (if x = c then Some 0 else map_option Suc (index_byte xs c))"

fun contains :: "bytes \<Rightarrow> bytes \<Rightarrow> bool" where
  "contains [] p \<longleftrightarrow> p = []"
| "contains (c # cs) p \<longleftrightarrow> has_prefix (c # cs) p \<or> contains cs p"

text \<open>\<open>strings.Split\<close> with a one-byte separator.\<close>

fun split_on :: "char \<Rightarrow> bytes \<Rightarrow> bytes list" where
  "split_on c [] = [[]]"
| "split_on c (x # xs) =
     (if x = c then [] # split_on c xs
      else (case split_on c xs of [] \<Rightarrow> [[x]] | y # ys \<Rightarrow> (x # y) # ys))"

fun join :: "bytes \<Rightarrow> bytes list \<Rightarrow> bytes" where
  "join sep [] = []"
| "join sep [x] = x"
| "join sep (x # y # ys) = x @ sep @ join sep (y # ys)"

text \<open>\<open>strings.ReplaceAll\<close> with a one-byte \<open>old\<close>.\<close>

definition replace_all :: "bytes \<Rightarrow> char \<Rightarrow> bytes \<Rightarrow> bytes" where
  "replace_all s old new = concat (map (\<lambda>c. if c = old then new else [c]) s)"

lemma has_prefix_append [simp, go_string]: "has_prefix (p @ s) p"
  by (simp add: has_prefix_def)

lemma has_prefix_Nil [simp, go_string]: "has_prefix s []"
  by (simp add: has_prefix_def)

lemma has_prefix_Cons [simp, go_string]:
  "has_prefix s (p # ps) \<longleftrightarrow> (\<exists>s'. s = p # s' \<and> has_prefix s' ps)"
  by (cases s) (auto simp: has_prefix_def)

lemma has_prefix_iff: "has_prefix s p \<longleftrightarrow> (\<exists>t. s = p @ t)"
  by (auto simp: has_prefix_def) (metis append_take_drop_id)

lemma index_byte_Some:
  "index_byte s c = Some i \<Longrightarrow> i < length s \<and> s ! i = c \<and> c \<notin> set (take i s)"
  by (induction s arbitrary: i) (auto split: if_splits)

lemma index_byte_append [go_string]: "c \<notin> set s \<Longrightarrow> index_byte (s @ c # t) c = Some (length s)"
  by (induction s) auto

lemma index_byte_None [go_string]: "index_byte s c = None \<longleftrightarrow> c \<notin> set s"
  by (induction s) auto

lemma contains_iff: "contains s p \<longleftrightarrow> (\<exists>u v. s = u @ p @ v)"
proof (induction s)
  case Nil
  show ?case by simp
next
  case (Cons c cs)
  then show ?case
    unfolding contains.simps has_prefix_iff
    by (metis append_Cons append_Nil append_eq_Cons_conv)
qed

lemma split_on_not_Nil [simp]: "split_on c s \<noteq> []"
  by (induction s) (auto split: list.splits)

lemma join_split_on: "join [c] (split_on c s) = s"
proof (induction s)
  case Nil
  show ?case by simp
next
  case (Cons x xs)
  then show ?case
    by (cases "split_on c xs" rule: list.exhaust) (auto split: list.splits, (case_tac x22; simp)+)
qed

lemma split_on_no_sep: "x \<in> set (split_on c s) \<Longrightarrow> c \<notin> set x"
  by (induction s arbitrary: x) (auto split: if_splits list.splits)

lemma split_on_join:
  assumes "xs \<noteq> []" and "\<forall>x \<in> set xs. c \<notin> set x"
  shows "split_on c (join [c] xs) = xs"
proof -
  have *: "c \<notin> set x \<Longrightarrow> split_on c (x @ c # s) = x # split_on c s" for x s
    by (induction x) auto
  have **: "c \<notin> set x \<Longrightarrow> split_on c x = [x]" for x
    by (induction x) auto
  show ?thesis
    using assms by (induction "[c]" xs rule: join.induct) (auto simp: * **)
qed

section \<open>Decimal numbers\<close>

text \<open>\<open>fmt\<close>'s \<open>%d\<close> on a number that is not negative.\<close>

fun decimal :: "nat \<Rightarrow> string" where
  "decimal n = (if n < 10 then [byte_of (48 + n)] else decimal (n div 10) @ [byte_of (48 + n mod 10)])"

declare decimal.simps [simp del]

lemma decimal_not_Nil [simp]: "decimal n \<noteq> []"
  by (subst decimal.simps) simp

section \<open>Quoting\<close>

text \<open>\<open>strconv.Quote\<close>, which is \<open>fmt\<close>'s \<open>%q\<close>. The table of printable runes from 128 on is
  the parameter \<open>pr\<close>.\<close>

definition hex_digit :: "nat \<Rightarrow> char" where
  "hex_digit n = (if n < 10 then byte_of (48 + n) else byte_of (87 + n))"

fun hex_digits :: "nat \<Rightarrow> nat \<Rightarrow> bytes" where
  "hex_digits 0 n = []"
| "hex_digits (Suc k) n = hex_digits k (n div 16) @ [hex_digit (n mod 16)]"

definition printable_rune :: "(nat \<Rightarrow> bool) \<Rightarrow> nat \<Rightarrow> bool" where
  "printable_rune pr r = (if r < 128 then 32 \<le> r \<and> r < 127 else pr r)"

text \<open>The decoder gives no surrogates and nothing above 1114111, which would be written as
  U+FFFD.\<close>

definition escape_rune :: "(nat \<Rightarrow> bool) \<Rightarrow> nat \<Rightarrow> bytes" where
  "escape_rune pr r =
     (if r = 34 \<or> r = 92 then [CHR 0x5C, byte_of r]
      else if printable_rune pr r then encode_rune r
      else if r = 7 then CHR 0x5C # ''a''
      else if r = 8 then CHR 0x5C # ''b''
      else if r = 12 then CHR 0x5C # ''f''
      else if r = 10 then CHR 0x5C # ''n''
      else if r = 13 then CHR 0x5C # ''r''
      else if r = 9 then CHR 0x5C # ''t''
      else if r = 11 then CHR 0x5C # ''v''
      else if r < 32 \<or> r = 127 then CHR 0x5C # ''x'' @ hex_digits 2 r
      else if r < 65536 then CHR 0x5C # ''u'' @ hex_digits 4 r
      else CHR 0x5C # ''U'' @ hex_digits 8 r)"

fun quote_body :: "(nat \<Rightarrow> bool) \<Rightarrow> bytes \<Rightarrow> bytes" where
  "quote_body pr [] = []"
| "quote_body pr (c # cs) =
     (case decode_rune (c # cs) of (r, n) \<Rightarrow>
       (if n = 1 \<and> r = rune_error then CHR 0x5C # ''x'' @ hex_digits 2 (byte_val c) else escape_rune pr r)
         @ quote_body pr (drop (n - 1) cs))"

definition quote :: "(nat \<Rightarrow> bool) \<Rightarrow> bytes \<Rightarrow> bytes" where
  "quote pr s = CHR 0x22 # quote_body pr s @ [CHR 0x22]"

lemma quote_plain:
  assumes "\<forall>c \<in> set s. 32 \<le> byte_val c \<and> byte_val c < 127 \<and> byte_val c \<noteq> 34 \<and> byte_val c \<noteq> 92"
  shows "quote pr s = CHR 0x22 # s @ [CHR 0x22]"
  using assms
  by (induction s) (auto simp: quote_def escape_rune_def printable_rune_def rune_error_def)

end
