(* ===== verification/Classifier.thy ===== *)
theory Classifier
  imports Go_Strings
begin

text \<open>
  \<open>internal/proxy/classifier.go\<close>: the routing decision for a SQL text. The loops over
  byte indices are kept as index recursions; the lemmas relate them to the obvious
  list functions and to a grammar of leading white space, line comments and nested block
  comments.
\<close>

section \<open>The code\<close>

datatype query_type = QueryRead | QueryWrite | QueryTransaction

text \<open>The \<open>iota\<close> values, and \<open>String()\<close> on any value of the integer type.\<close>

fun query_type_code :: "query_type \<Rightarrow> int" where
  "query_type_code QueryRead = 0"
| "query_type_code QueryWrite = 1"
| "query_type_code QueryTransaction = 2"

definition query_type_string :: "int \<Rightarrow> string" where
  "query_type_string q =
     (if q = 0 then ''READ'' else if q = 1 then ''WRITE'' else if q = 2 then ''TXN''
      else ''UNKNOWN'')"

definition is_delim :: "nat \<Rightarrow> bool" where
  "is_delim r \<longleftrightarrow> r = 32 \<or> r = 9 \<or> r = 10 \<or> r = 13 \<or> r = 40"

text \<open>The loop of \<open>firstToken\<close>: the index of the first delimiter rune.\<close>

fun token_end :: "bytes \<Rightarrow> nat \<Rightarrow> nat option" where
  "token_end [] i = None"
| "token_end (c # cs) i =
     (let (r, n) = decode_rune (c # cs)
      in if is_delim r then Some i else token_end (drop (n - 1) cs) (i + n))"

definition first_token :: "bytes \<Rightarrow> bytes" where
  "first_token s = (case token_end s 0 of Some i \<Rightarrow> take i s | None \<Rightarrow> s)"

text \<open>The scan for the end of a block comment: \<open>i\<close> and \<open>depth\<close> are the loop's variables,
  the result is \<open>i\<close> when the loop is left.\<close>

function block_end :: "bytes \<Rightarrow> nat \<Rightarrow> int \<Rightarrow> nat" where
  "block_end sql i depth =
     (if i + 1 < length sql then
        (if sql ! i = CHR ''/'' \<and> sql ! (i + 1) = CHR ''*'' then
           block_end sql (i + 2) (depth + 1)
         else if sql ! i = CHR ''*'' \<and> sql ! (i + 1) = CHR ''/'' then
           (if depth - 1 = 0 then i + 2 else block_end sql (i + 2) (depth - 1))
         else block_end sql (i + 1) depth)
      else i)"
  by pat_completeness auto
termination
  by (relation "measure (\<lambda>(sql, i, depth). length sql - i)") auto

declare block_end.simps [simp del]

text \<open>The same scan on the remaining text.\<close>

fun block_rest :: "bytes \<Rightarrow> int \<Rightarrow> bytes" where
  "block_rest (a # b # s) depth =
     (if a = CHR ''/'' \<and> b = CHR ''*'' then block_rest s (depth + 1)
      else if a = CHR ''*'' \<and> b = CHR ''/'' then
        (if depth - 1 = 0 then s else block_rest s (depth - 1))
      else block_rest (b # s) depth)"
| "block_rest s depth = s"

lemma block_end_ge: "i \<le> block_end sql i depth"
proof (induction sql i depth rule: block_end.induct)
  case (1 sql i depth)
  then show ?case
    by (subst block_end.simps) (auto intro: le_trans [OF le_add1])
qed

lemma block_end_progress: "has_prefix sql ''/*'' \<Longrightarrow> 2 \<le> block_end sql 0 0"
  using block_end_ge [of "Suc (Suc 0)" sql 1] by (subst block_end.simps) auto

lemma length_trim_left: "length (trim_left s) \<le> length s"
  by (metis trim_left_decomp length_append le_add2)

lemma length_trim_right: "length (trim_right s) \<le> length s"
  by (metis trim_right_decomp length_append le_add1)

lemma length_trim_space: "length (trim_space s) \<le> length s"
  by (metis trim_space_def length_trim_left length_trim_right le_trans)

function strip_leading_comments :: "bytes \<Rightarrow> bytes" where
  "strip_leading_comments sql0 =
     (let sql = trim_space sql0 in
      if has_prefix sql ''--'' then
        (case index_byte sql (CHR 0x0A) of
           None \<Rightarrow> []
         | Some idx \<Rightarrow> strip_leading_comments (drop (idx + 1) sql))
      else if has_prefix sql ''/*'' then
        strip_leading_comments (drop (block_end sql 0 0) sql)
      else sql)"
  by pat_completeness auto
termination
proof (relation "measure length")
  fix sql0 sql :: bytes and idx :: nat
  assume sql: "sql = trim_space sql0"
  note len = length_trim_space [of sql0]
  {
    assume "has_prefix sql ''--''"
    then show "(drop (idx + 1) sql, sql0) \<in> measure length"
      using sql len by auto
  next
    assume "has_prefix sql ''/*''"
    then show "(drop (block_end sql 0 0) sql, sql0) \<in> measure length"
      using sql len block_end_progress [of sql] by auto
  }
qed simp

declare strip_leading_comments.simps [simp del]

definition classify_query :: "(nat \<Rightarrow> nat) \<Rightarrow> bytes \<Rightarrow> query_type" where
  "classify_query up sql0 =
     (let sql = trim_space (strip_leading_comments (trim_space sql0)) in
      if sql = [] then QueryRead
      else
        let first_word = to_upper up (first_token sql) in
        if first_word \<in> {''SELECT'', ''SHOW'', ''EXPLAIN'', ''SET'', ''RESET'', ''DISCARD''}
        then QueryRead
        else if first_word \<in> {''BEGIN'', ''START''} then QueryTransaction
        else if first_word \<in> {''COMMIT'', ''END'', ''ROLLBACK'', ''SAVEPOINT'', ''RELEASE''}
        then QueryTransaction
        else if first_word = ''COPY'' then
          (if contains (to_upper up sql) '' TO '' then QueryRead else QueryWrite)
        else QueryWrite)"

section \<open>The first token\<close>

abbreviation delim :: "char \<Rightarrow> bool" where
  "delim c \<equiv> is_delim (byte_val c)"

lemma is_delim_low: "is_delim r \<Longrightarrow> r < 128"
  by (auto simp: is_delim_def)

lemma decode_rune_delim:
  assumes "decode_rune (c # cs) = (r, n)"
  shows "is_delim r \<longleftrightarrow> delim c"
    and "\<not> is_delim r \<Longrightarrow> \<forall>x \<in> set (take n (c # cs)). \<not> delim x"
proof -
  show 1: "is_delim r \<longleftrightarrow> delim c"
    using assms decode_rune_low [OF assms] by (cases "byte_val c < 128") (auto dest: is_delim_low)
  assume "\<not> is_delim r"
  then show "\<forall>x \<in> set (take n (c # cs)). \<not> delim x"
    using assms 1 decode_rune_high [OF assms]
    by (cases "byte_val c < 128") (fastforce dest: is_delim_low)+
qed

lemma token_end_eq:
  "token_end s i =
     (if \<exists>c \<in> set s. delim c then Some (i + length (takeWhile (\<lambda>c. \<not> delim c) s)) else None)"
proof (induction s i rule: token_end.induct)
  case (1 i)
  show ?case by simp
next
  case (2 c cs i)
  obtain r n where d: "decode_rune (c # cs) = (r, n)"
    by (cases "decode_rune (c # cs)")
  show ?case
  proof (cases "is_delim r")
    case True
    with d decode_rune_delim(1) [OF d] show ?thesis
      by simp
  next
    case False
    let ?u = "take n (c # cs)" and ?v = "drop (n - 1) cs"
    have n: "1 \<le> n" "n \<le> Suc (length cs)"
      using decode_rune_width [OF d] by auto
    then have cat: "c # cs = ?u @ ?v" and len: "length ?u = n"
      by (cases n; auto)+
    have nd: "\<forall>x \<in> set ?u. \<not> delim x"
      by (rule decode_rune_delim(2) [OF d False])
    have "token_end (c # cs) i = token_end ?v (i + n)"
      using d False by simp
    also have "\<dots> = (if \<exists>c \<in> set ?v. delim c
        then Some (i + n + length (takeWhile (\<lambda>c. \<not> delim c) ?v)) else None)"
      using 2 [OF d [symmetric] refl False] .
    also have "\<dots> = (if \<exists>c \<in> set (?u @ ?v). delim c
        then Some (i + length (takeWhile (\<lambda>c. \<not> delim c) (?u @ ?v))) else None)"
      using nd len by (auto simp: takeWhile_append2)
    finally show ?thesis
      by (simp only: cat [symmetric])
  qed
qed

lemma first_token_eq [go_string]: "first_token s = takeWhile (\<lambda>c. \<not> delim c) s"
proof (cases "\<exists>c \<in> set s. delim c")
  case True
  then show ?thesis
    by (simp add: first_token_def token_end_eq takeWhile_eq_take [symmetric])
next
  case False
  then have tw: "takeWhile (\<lambda>c. \<not> delim c) s = s"
    by (simp add: takeWhile_eq_all_conv)
  show ?thesis
    using False unfolding first_token_def token_end_eq tw by simp
qed

section \<open>Comments\<close>

lemma drop_block_end: "drop (block_end sql i depth) sql = block_rest (drop i sql) depth"
proof (induction sql i depth rule: block_end.induct)
  case (1 sql i depth)
  show ?case
  proof (cases "i + 1 < length sql")
    case True
    then obtain a b s where s: "drop i sql = a # b # s"
      by (metis Cons_nth_drop_Suc Suc_eq_plus1 Suc_lessD)
    then have ab: "sql ! i = a" "sql ! Suc i = b" and ds: "drop (Suc i) sql = b # s"
      and dss: "drop (Suc (Suc i)) sql = s"
      by (metis nth_via_drop, metis drop_Suc nth_via_drop tl_drop list.sel(3), metis drop_Suc tl_drop list.sel(3),
          metis drop_Suc tl_drop list.sel(3))
    show ?thesis
      using True 1 ab ds dss s by (subst block_end.simps) auto
  next
    case False
    then have "length (drop i sql) \<le> 1"
      by simp
    then have "block_rest (drop i sql) depth = drop i sql"
      by (cases "drop i sql" rule: list.exhaust; cases "tl (drop i sql)") auto
    with False show ?thesis
      by (subst block_end.simps) simp
  qed
qed

text \<open>A comment of the grammar: text, or a block \<open>/* ... */\<close> of comments. The text of a
  block must not make a comment bracket with what follows it.\<close>

datatype comment = Text string | Block "comment list"

fun render :: "comment \<Rightarrow> string" where
  "render (Text t) = t"
| "render (Block cs) = ''/*'' @ concat (map render cs) @ ''*/''"

fun no_bracket :: "string \<Rightarrow> bool" where
  "no_bracket (a # b # s) \<longleftrightarrow>
     \<not> (a = CHR ''/'' \<and> b = CHR ''*'') \<and> \<not> (a = CHR ''*'' \<and> b = CHR ''/'') \<and> no_bracket (b # s)"
| "no_bracket s \<longleftrightarrow> True"

fun wf_items :: "comment list \<Rightarrow> bool" where
  "wf_items [] \<longleftrightarrow> True"
| "wf_items (Text t # cs) \<longleftrightarrow>
     no_bracket (t @ [hd (concat (map render cs) @ ''*'')]) \<and> wf_items cs"
| "wf_items (Block bs # cs) \<longleftrightarrow> wf_items bs \<and> wf_items cs"

lemma block_rest_text:
  "no_bracket (t @ [x]) \<Longrightarrow> block_rest (t @ x # s) depth = block_rest (x # s) depth"
proof (induction t)
  case Nil
  show ?case by simp
next
  case (Cons a t)
  then show ?case
    by (cases t) auto
qed

lemma hd_append_same: "hd (xs @ [x]) = hd (xs @ x # zs)"
  by (cases xs) simp_all

lemma block_rest_items:
  assumes "wf_items cs" and "1 \<le> depth"
  shows "block_rest (concat (map render cs) @ ''*/'' @ s) depth =
    (if depth = 1 then s else block_rest s (depth - 1))"
  using assms
proof (induction cs arbitrary: s depth rule: wf_items.induct)
  case 1
  then show ?case by simp
next
  case (2 t cs)
  let ?r = "concat (map render cs) @ ''*/'' @ s"
  obtain y ys where y: "?r = y # ys"
    by (cases "concat (map render cs)") auto
  have "hd (concat (map render cs) @ ''*'') = y"
    using hd_append_same [of "concat (map render cs)" "CHR ''*''" "''/'' @ s"] y by simp
  with 2 have "no_bracket (t @ [y])"
    by simp
  then have "block_rest (t @ ?r) depth = block_rest ?r depth"
    unfolding y by (rule block_rest_text)
  with 2 show ?case
    by simp
next
  case (3 bs cs)
  have "block_rest (render (Block bs) @ concat (map render cs) @ ''*/'' @ s) depth
      = block_rest (concat (map render bs) @ ''*/'' @ concat (map render cs) @ ''*/'' @ s) (depth + 1)"
    by simp
  also have "\<dots> = block_rest (concat (map render cs) @ ''*/'' @ s) depth"
    using 3 by (subst 3(1)) auto
  finally show ?case
    using 3 by simp
qed

lemma block_comment_skipped:
  assumes "wf_items cs"
  shows "drop (block_end (render (Block cs) @ s) 0 0) (render (Block cs) @ s) = s"
  using block_rest_items [OF assms, of 1 s] by (simp add: drop_block_end)

section \<open>What precedes the first keyword\<close>

datatype lead = Space char | Line string | BlockComment "comment list"

fun render_lead :: "lead \<Rightarrow> string" where
  "render_lead (Space c) = [c]"
| "render_lead (Line t) = ''--'' @ t @ [CHR 0x0A]"
| "render_lead (BlockComment cs) = render (Block cs)"

fun wf_lead :: "lead \<Rightarrow> bool" where
  "wf_lead (Space c) \<longleftrightarrow> ascii_space c"
| "wf_lead (Line t) \<longleftrightarrow> CHR 0x0A \<notin> set t"
| "wf_lead (BlockComment cs) \<longleftrightarrow> wf_items cs"

abbreviation render_leads :: "lead list \<Rightarrow> string" where
  "render_leads ls \<equiv> concat (map render_lead ls)"

definition letter :: "char \<Rightarrow> bool" where
  "letter c \<longleftrightarrow> (65 \<le> byte_val c \<and> byte_val c \<le> 90) \<or> (97 \<le> byte_val c \<and> byte_val c \<le> 122)"

lemma letter_solid: "letter c \<Longrightarrow> solid c"
  by (auto simp: letter_def solid_def ascii_space_def)

lemma letter_not_delim: "letter c \<Longrightarrow> \<not> delim c"
  by (auto simp: letter_def is_delim_def)

lemma solid_bracket [simp]: "solid CHR ''-''" "solid CHR ''/''" "solid CHR ''*''"
  by (simp_all add: solid_def ascii_space_def)

lemma trim_space_solid:
  assumes "solid y" and "solid x"
  shows "\<exists>zs t. trim_space (y # u @ x # ys) = y # u @ x # zs \<and> ys = zs @ t
    \<and> (\<forall>z \<in> set t. \<not> solid z)"
  using trim_right_keep [OF assms(2), of "y # u" ys] assms(1) by (simp add: trim_space_def)

lemma trim_space_solid_hd:
  assumes "solid x"
  shows "\<exists>zs t. trim_space (x # ys) = x # zs \<and> ys = zs @ t \<and> (\<forall>z \<in> set t. \<not> solid z)"
  using trim_right_keep [OF assms, of "[]" ys] assms by (simp add: trim_space_def)

lemma strip_solid:
  assumes "letter x"
  shows "\<exists>zs t. strip_leading_comments (x # ys) = x # zs \<and> ys = zs @ t \<and> (\<forall>z \<in> set t. \<not> solid z)"
proof -
  obtain zs t where z: "trim_space (x # ys) = x # zs" "ys = zs @ t" "\<forall>z \<in> set t. \<not> solid z"
    using trim_space_solid_hd [OF letter_solid [OF assms]] by blast
  have "x \<noteq> CHR ''-''" and "x \<noteq> CHR ''/''"
    using assms by (auto simp: letter_def)
  with z(1) have "strip_leading_comments (x # ys) = x # zs"
    by (subst strip_leading_comments.simps) simp
  with z show ?thesis
    by blast
qed

lemma strip_line:
  assumes "CHR 0x0A \<notin> set t" and "solid x"
  shows "\<exists>zs t'. strip_leading_comments (render_lead (Line t) @ u @ x # ys)
      = strip_leading_comments (u @ x # zs) \<and> ys = zs @ t' \<and> (\<forall>z \<in> set t'. \<not> solid z)"
proof -
  let ?u = "CHR ''-'' # t @ [CHR 0x0A] @ u"
  obtain zs t' where z: "trim_space (CHR ''-'' # ?u @ x # ys) = CHR ''-'' # ?u @ x # zs"
    "ys = zs @ t'" "\<forall>z \<in> set t'. \<not> solid z"
    using trim_space_solid [of "CHR ''-''" x ?u ys] assms(2) by auto
  have "index_byte (''--'' @ t @ CHR 0x0A # u @ x # zs) (CHR 0x0A) = Some (length (''--'' @ t))"
    using index_byte_append [of "CHR 0x0A" "''--'' @ t" "u @ x # zs"] assms(1) by simp
  then have "strip_leading_comments (render_lead (Line t) @ u @ x # ys)
      = strip_leading_comments (u @ x # zs)"
    using z(1) by (subst strip_leading_comments.simps) simp
  with z show ?thesis
    by blast
qed

lemma strip_block:
  assumes "wf_items cs" and "solid x"
  shows "\<exists>zs t'. strip_leading_comments (render_lead (BlockComment cs) @ u @ x # ys)
      = strip_leading_comments (u @ x # zs) \<and> ys = zs @ t' \<and> (\<forall>z \<in> set t'. \<not> solid z)"
proof -
  let ?u = "CHR ''*'' # concat (map render cs) @ ''*/'' @ u"
  obtain zs t' where z: "trim_space (CHR ''/'' # ?u @ x # ys) = CHR ''/'' # ?u @ x # zs"
    "ys = zs @ t'" "\<forall>z \<in> set t'. \<not> solid z"
    using trim_space_solid [of "CHR ''/''" x ?u ys] assms(2) by auto
  have "drop (block_end (CHR ''/'' # ?u @ x # zs) 0 0) (CHR ''/'' # ?u @ x # zs) = u @ x # zs"
    using block_comment_skipped [OF assms(1), of "u @ x # zs"] by simp
  then have "strip_leading_comments (render_lead (BlockComment cs) @ u @ x # ys)
      = strip_leading_comments (u @ x # zs)"
    using z(1) by (subst strip_leading_comments.simps) simp
  with z show ?thesis
    by blast
qed

lemma strip_space:
  assumes "ascii_space c"
  shows "strip_leading_comments (c # s) = strip_leading_comments s"
proof -
  have "trim_space (c # s) = trim_space s"
    using assms by (simp add: trim_space_def)
  then show ?thesis
    by (simp add: strip_leading_comments.simps [of "c # s"] strip_leading_comments.simps [of s])
qed

lemma strip_leads:
  assumes "list_all wf_lead ls" and "letter x"
  shows "\<exists>zs t. strip_leading_comments (render_leads ls @ x # ys) = x # zs \<and> ys = zs @ t
    \<and> (\<forall>z \<in> set t. \<not> solid z)"
  using assms(1)
proof (induction ls arbitrary: ys)
  case Nil
  show ?case
    using strip_solid [OF assms(2)] by simp
next
  case (Cons l ls)
  note sx = letter_solid [OF assms(2)]
  have step: "\<exists>zs t. strip_leading_comments (render_leads (l # ls) @ x # ys)
      = strip_leading_comments (render_leads ls @ x # zs) \<and> ys = zs @ t \<and> (\<forall>z \<in> set t. \<not> solid z)"
  proof (cases l)
    case (Space c)
    with Cons.prems strip_space show ?thesis
      by (intro exI [of _ ys] exI [of _ "[]"]) simp
  next
    case (Line t)
    with Cons.prems strip_line [of t x "render_leads ls" ys] sx show ?thesis
      by simp
  next
    case (BlockComment cs)
    with Cons.prems strip_block [of cs x "render_leads ls" ys] sx show ?thesis
      by simp
  qed
  then obtain zs t where 1: "strip_leading_comments (render_leads (l # ls) @ x # ys)
      = strip_leading_comments (render_leads ls @ x # zs)" "ys = zs @ t" "\<forall>z \<in> set t. \<not> solid z"
    by blast
  obtain zs' t' where 2: "strip_leading_comments (render_leads ls @ x # zs) = x # zs'"
    "zs = zs' @ t'" "\<forall>z \<in> set t'. \<not> solid z"
    using Cons.IH [of zs] Cons.prems by auto
  have "ys = zs' @ (t' @ t)" and "\<forall>z \<in> set (t' @ t). \<not> solid z"
    using 1 2 by auto
  with 1(1) 2(1) show ?case
    by (metis (no_types))
qed

lemma trim_space_leads:
  assumes "list_all wf_lead ls" and "letter x"
  shows "\<exists>ls' zs t. trim_space (render_leads ls @ x # ys) = render_leads ls' @ x # zs
    \<and> list_all wf_lead ls' \<and> ys = zs @ t \<and> (\<forall>z \<in> set t. \<not> solid z)"
  using assms(1)
proof (induction ls)
  case Nil
  obtain zs t where "trim_space (x # ys) = x # zs" "ys = zs @ t" "\<forall>z \<in> set t. \<not> solid z"
    using trim_space_solid_hd [OF letter_solid [OF assms(2)]] by blast
  then show ?case
    by (intro exI [of _ "[]"] exI [of _ zs] exI [of _ t]) simp
next
  case (Cons l ls)
  note sx = letter_solid [OF assms(2)]
  have keep: "\<exists>ls' zs t. trim_space (render_leads (l # ls) @ x # ys) = render_leads ls' @ x # zs
      \<and> list_all wf_lead ls' \<and> ys = zs @ t \<and> (\<forall>z \<in> set t. \<not> solid z)"
    if "render_lead l = y # v" and "solid y" for y v
    using trim_space_solid [OF that(2) sx, of "v @ render_leads ls" ys] that(1) Cons.prems
    by (intro exI [of _ "l # ls"]) simp
  show ?case
  proof (cases l)
    case (Space c)
    then have "trim_space (render_leads (l # ls) @ x # ys) = trim_space (render_leads ls @ x # ys)"
      using Cons.prems by (simp add: trim_space_def)
    with Cons Space show ?thesis
      by simp
  next
    case (Line t)
    then show ?thesis
      using keep [of "CHR ''-''" "CHR ''-'' # t @ [CHR 0x0A]"] by simp
  next
    case (BlockComment cs)
    then show ?thesis
      using keep [of "CHR ''/''" "CHR ''*'' # concat (map render cs) @ ''*/''"] by simp
  qed
qed

text \<open>The text the keyword switch sees: the keyword, and the rest less some trailing space.\<close>

lemma classified_text:
  assumes "list_all wf_lead ls" and "letter x"
  shows "\<exists>zs t. trim_space (strip_leading_comments (trim_space (render_leads ls @ x # ys))) = x # zs
    \<and> ys = zs @ t \<and> (\<forall>z \<in> set t. \<not> solid z)"
proof -
  obtain ls' z1 t1 where 1: "trim_space (render_leads ls @ x # ys) = render_leads ls' @ x # z1"
    "list_all wf_lead ls'" "ys = z1 @ t1" "\<forall>z \<in> set t1. \<not> solid z"
    using trim_space_leads [OF assms] by blast
  obtain z2 t2 where 2: "strip_leading_comments (render_leads ls' @ x # z1) = x # z2"
    "z1 = z2 @ t2" "\<forall>z \<in> set t2. \<not> solid z"
    using strip_leads [OF 1(2) assms(2)] by blast
  obtain z3 t3 where 3: "trim_space (x # z2) = x # z3" "z2 = z3 @ t3" "\<forall>z \<in> set t3. \<not> solid z"
    using trim_space_solid_hd [OF letter_solid [OF assms(2)]] by blast
  show ?thesis
    using 1 2 3 by (intro exI [of _ z3] exI [of _ "t3 @ t2 @ t1"]) auto
qed

lemma append_solid_split:
  assumes "k @ rest = zs @ t" and "\<forall>c \<in> set k. solid c" and "\<forall>z \<in> set t. \<not> solid z"
  shows "\<exists>rest'. zs = k @ rest' \<and> rest = rest' @ t"
  using iffD1 [OF append_eq_append_conv2 assms(1)]
proof (elim exE disjE conjE)
  fix us
  assume "k = zs @ us" and "us @ rest = t"
  then have "us = []"
    using assms(2,3) by (cases us) auto
  then show ?thesis
    using \<open>k = zs @ us\<close> \<open>us @ rest = t\<close> by simp
next
  fix us
  assume "k @ us = zs" and "rest = us @ t"
  then show ?thesis
    by blast
qed

lemma classified_keyword:
  assumes "list_all wf_lead ls" and "kw \<noteq> []" and "\<forall>c \<in> set kw. letter c"
  shows "\<exists>rest' t. trim_space (strip_leading_comments (trim_space (render_leads ls @ kw @ rest)))
      = kw @ rest' \<and> rest = rest' @ t \<and> (\<forall>z \<in> set t. \<not> solid z)"
proof -
  obtain x k where kw: "kw = x # k" "letter x"
    using assms(2,3) by (cases kw) auto
  obtain zs t where 1: "trim_space (strip_leading_comments (trim_space (render_leads ls @ x # k @ rest)))
      = x # zs" "k @ rest = zs @ t" "\<forall>z \<in> set t. \<not> solid z"
    using classified_text [OF assms(1) kw(2), of "k @ rest"] by blast
  obtain rest' where "zs = k @ rest'" "rest = rest' @ t"
    using append_solid_split [OF 1(2) _ 1(3)] assms(3) kw letter_solid by auto
  with 1 kw show ?thesis
    by auto
qed

lemma letter_ascii: "letter c \<Longrightarrow> byte_val c < 128"
  by (auto simp: letter_def)

lemma first_token_keyword:
  assumes "\<forall>c \<in> set kw. letter c" and "rest = [] \<or> delim (hd rest)"
  shows "first_token (kw @ rest) = kw"
  using assms letter_not_delim
  by (cases rest) (auto simp: first_token_eq takeWhile_append2 takeWhile_eq_all_conv)

section \<open>The keyword table\<close>

text \<open>The documented routing of a statement by its first keyword, in upper case.\<close>

definition read_keywords :: "string list" where
  "read_keywords = [''SELECT'', ''SHOW'', ''EXPLAIN'', ''SET'', ''RESET'', ''DISCARD'']"

definition transaction_keywords :: "string list" where
  "transaction_keywords =
     [''BEGIN'', ''START'', ''COMMIT'', ''END'', ''ROLLBACK'', ''SAVEPOINT'', ''RELEASE'']"

definition keyword_class :: "string \<Rightarrow> query_type" where
  "keyword_class w =
     (if w \<in> set read_keywords then QueryRead
      else if w \<in> set transaction_keywords then QueryTransaction
      else QueryWrite)"

lemma to_upper_letters: "\<forall>c \<in> set kw. letter c \<Longrightarrow> to_upper up kw = map ascii_upper kw"
  by (auto intro!: to_upper_ascii simp: all_ascii_def letter_ascii)

lemma delim_prefix: "rest = rest' @ t \<Longrightarrow> rest = [] \<or> delim (hd rest) \<Longrightarrow> rest' = [] \<or> delim (hd rest')"
  by (cases rest') auto

lemma classify_query_keyword:
  assumes "trim_space (strip_leading_comments (trim_space sql)) = kw @ rest"
    and "kw \<noteq> []" and "\<forall>c \<in> set kw. letter c" and "rest = [] \<or> delim (hd rest)"
  shows "classify_query up sql =
    (if map ascii_upper kw = ''COPY'' then
       (if contains (to_upper up (kw @ rest)) '' TO '' then QueryRead else QueryWrite)
     else keyword_class (map ascii_upper kw))"
  using assms
  by (simp add: classify_query_def first_token_keyword to_upper_letters keyword_class_def
      read_keywords_def transaction_keywords_def)

lemma classify_leads_keyword:
  assumes "list_all wf_lead ls" and "kw \<noteq> []" and "\<forall>c \<in> set kw. letter c"
    and "rest = [] \<or> delim (hd rest)" and "map ascii_upper kw \<noteq> ''COPY''"
  shows "classify_query up (render_leads ls @ kw @ rest) = keyword_class (map ascii_upper kw)"
proof -
  obtain rest' t where
    1: "trim_space (strip_leading_comments (trim_space (render_leads ls @ kw @ rest))) = kw @ rest'"
    and 2: "rest = rest' @ t"
    using classified_keyword [OF assms(1,2,3)] by blast
  show ?thesis
    using classify_query_keyword [OF 1 assms(2,3) delim_prefix [OF 2 assms(4)]] assms(5) by simp
qed

lemma classify_select: "classify_query up (''SELECT '' @ s) = QueryRead"
proof -
  have "map ascii_upper ''SELECT'' = ''SELECT''"
    by (simp add: ascii_upper_def rune_upper_def byte_of_eq_iff)
  then show ?thesis
    using classify_leads_keyword [of "[]" "''SELECT''" "'' '' @ s" up]
    by (simp add: letter_def is_delim_def keyword_class_def read_keywords_def)
qed

section \<open>Properties\<close>

text \<open>
  C20. Whatever white space, line comments and (nested) block comments precede a statement,
  and whatever the case of its first keyword, \<open>ClassifyQuery\<close> returns the class the
  keyword table gives; in particular every statement whose keyword is neither a read nor a
  transaction keyword (nor \<open>COPY\<close>) is a write.
\<close>

theorem classify_query_by_keyword:
  assumes "list_all wf_lead ls" and "kw \<noteq> []" and "\<forall>c \<in> set kw. letter c"
    and "rest = [] \<or> delim (hd rest)" and "map ascii_upper kw \<noteq> ''COPY''"
  shows "classify_query up (render_leads ls @ kw @ rest) = keyword_class (map ascii_upper kw)"
  by (rule classify_leads_keyword [OF assms])

theorem classify_query_by_keyword_witness:
  "classify_query id (render_leads [Space CHR '' '', Line ''select'',
      BlockComment [Text ''a '', Block [Text ''b''], Text '' c'']] @ ''Delete'' @ '' from t'')
    = QueryWrite"
proof -
  have "map ascii_upper ''Delete'' = ''DELETE''"
    by (simp add: ascii_upper_def rune_upper_def char_of_eq_iff)
  moreover have "keyword_class ''DELETE'' = QueryWrite"
    by (simp add: keyword_class_def read_keywords_def transaction_keywords_def)
  ultimately show ?thesis
    by (subst classify_query_by_keyword) (simp_all add: ascii_space_def letter_def is_delim_def)
qed

text \<open>
  \<open>stripLeadingComments\<close> returns (its loop ends on every input) a text that starts
  neither a line comment nor a block comment, however comments and white space are mixed and
  also when a block comment is never closed.
\<close>

theorem strip_leading_comments_none_left:
  "\<not> has_prefix (strip_leading_comments sql) ''--'' \<and> \<not> has_prefix (strip_leading_comments sql) ''/*''"
proof (induction sql rule: strip_leading_comments.induct)
  case (1 sql0)
  let ?sql = "trim_space sql0"
  consider (line) "has_prefix ?sql ''--''" | (block) "\<not> has_prefix ?sql ''--''" "has_prefix ?sql ''/*''"
    | (none) "\<not> has_prefix ?sql ''--''" "\<not> has_prefix ?sql ''/*''"
    by blast
  then show ?case
  proof cases
    case line
    show ?thesis
    proof (cases "index_byte ?sql (CHR 0x0A)")
      case None
      with line have "strip_leading_comments sql0 = []"
        by (subst strip_leading_comments.simps) (simp add: Let_def del: has_prefix_Cons)
      then show ?thesis
        by simp
    next
      case (Some idx)
      with line have "strip_leading_comments sql0 = strip_leading_comments (drop (idx + 1) ?sql)"
        by (subst strip_leading_comments.simps) (simp add: Let_def del: has_prefix_Cons)
      with 1(1) [OF refl line Some] show ?thesis
        by (simp del: has_prefix_Cons)
    qed
  next
    case block
    then have "strip_leading_comments sql0 = strip_leading_comments (drop (block_end ?sql 0 0) ?sql)"
      by (subst strip_leading_comments.simps) (simp add: Let_def del: has_prefix_Cons)
    with 1(2) [OF refl block] show ?thesis
      by (simp del: has_prefix_Cons)
  next
    case none
    then have "strip_leading_comments sql0 = ?sql"
      by (subst strip_leading_comments.simps) (simp add: Let_def del: has_prefix_Cons)
    with none show ?thesis
      by simp
  qed
qed

lemma to_upper_append: "all_ascii s \<Longrightarrow> all_ascii t \<Longrightarrow> to_upper up (s @ t) = map ascii_upper s @ map ascii_upper t"
  by (simp add: to_upper_ascii)

lemma classify_copy_text:
  assumes "list_all wf_lead ls" and "map ascii_upper kw = ''COPY''" and "\<forall>c \<in> set kw. letter c"
    and "delim d" and "solid x"
  shows "classify_query up (render_leads ls @ kw @ d # u @ [x]) =
    (if contains (to_upper up (kw @ d # u @ [x])) '' TO '' then QueryRead else QueryWrite)"
proof -
  have kw: "kw \<noteq> []"
    using assms(2) by auto
  obtain rest' t where
    1: "trim_space (strip_leading_comments (trim_space (render_leads ls @ kw @ d # u @ [x]))) = kw @ rest'"
    and 2: "d # u @ [x] = rest' @ t" "\<forall>z \<in> set t. \<not> solid z"
    using classified_keyword [OF assms(1) kw assms(3), of "d # u @ [x]"] by blast
  have "t = []"
    using 2 assms(5) by (cases t rule: rev_cases) (auto simp flip: append_assoc append_Cons)
  with 2 have "rest' = d # u @ [x]"
    by simp
  with classify_query_keyword [OF 1 kw assms(3)] assms(2,4) show ?thesis
    by simp
qed

text \<open>
  An ASCII \<open>COPY\<close> statement is a read exactly when the text between the keyword and
  the end contains \<open>TO\<close> between two blanks, in any case; what the word belongs to is not
  looked at.
\<close>

theorem classify_copy:
  assumes "list_all wf_lead ls" and "map ascii_upper kw = ''COPY''" and "\<forall>c \<in> set kw. letter c"
    and "delim d" and "solid x" and "all_ascii (kw @ d # u @ [x])"
  shows "classify_query up (render_leads ls @ kw @ d # u @ [x]) = QueryRead \<longleftrightarrow>
    (\<exists>a b. map ascii_upper (kw @ d # u @ [x]) = a @ '' TO '' @ b)"
  using classify_copy_text [OF assms(1-5), of up u] assms(6)
  by (simp add: to_upper_ascii contains_iff del: append.simps map_append)

theorem classify_copy_witness:
  "classify_query id (render_leads [] @ ''copy'' @ CHR '' '' # ''t FROM '' @ ''a to b'' @ [CHR ''c'']) = QueryRead"
proof -
  have up: "map ascii_upper ''copy'' = ''COPY''"
    by (simp add: ascii_upper_def rune_upper_def char_of_eq_iff)
  have "map ascii_upper (''copy'' @ CHR '' '' # (''t FROM '' @ ''a to b'') @ [CHR ''c'']) =
      ''COPY T FROM A'' @ '' TO '' @ ''BC''"
    by (simp add: ascii_upper_def rune_upper_def char_of_eq_iff)
  then have "\<exists>a b. map ascii_upper (''copy'' @ CHR '' '' # (''t FROM '' @ ''a to b'') @ [CHR ''c'']) =
      a @ '' TO '' @ b"
    by blast
  moreover have "\<forall>c \<in> set ''copy''. letter c" and "delim CHR '' ''" and "solid CHR ''c''"
    by (simp_all add: letter_def is_delim_def solid_def ascii_space_def)
  ultimately show ?thesis
    using classify_copy [of "[]" "''copy''" "CHR '' ''" "CHR ''c''" "''t FROM '' @ ''a to b''" id, OF _ up]
    by simp
qed

end
