(* ===== verification/Wire.thy ===== *)
theory Wire
  imports Go_Strings
begin

text \<open>
  The wire-protocol helpers of \<open>internal/proxy/proxy.go\<close>: the builders of the messages the
  proxy sends (byte buffers filled at a position that moves, every slice and index checked as
  Go checks it), \<open>readRawMessage\<close>, \<open>extractSQL\<close>, \<open>parseStartupParams\<close>, and the
  client connection they read from and write to.
\<close>

section \<open>Buffers\<close>

text \<open>\<open>buf[i] = c\<close>, \<open>copy(buf[pos:], src)\<close> and \<open>PutUint32(buf[pos:pos+4], w)\<close>;
  \<open>None\<close> is the run-time panic of an index or slice out of range.\<close>

definition put_byte :: "nat \<Rightarrow> char \<Rightarrow> bytes \<Rightarrow> bytes option" where
  "put_byte i c buf = (if i < length buf then Some (buf[i := c]) else None)"

definition copy_at :: "nat \<Rightarrow> bytes \<Rightarrow> bytes \<Rightarrow> bytes option" where
  "copy_at pos src buf =
     (if pos \<le> length buf then
        let k = min (length src) (length buf - pos)
        in Some (take pos buf @ take k src @ drop (pos + k) buf)
      else None)"

definition put_uint32 :: "nat \<Rightarrow> 32 word \<Rightarrow> bytes \<Rightarrow> bytes option" where
  "put_uint32 pos w buf =
     (if pos + 4 \<le> length buf then Some (take pos buf @ be32 w @ drop (pos + 4) buf) else None)"

definition put_uint16 :: "nat \<Rightarrow> 16 word \<Rightarrow> bytes \<Rightarrow> bytes option" where
  "put_uint16 pos w buf =
     (if pos + 2 \<le> length buf then Some (take pos buf @ be16 w @ drop (pos + 2) buf) else None)"

definition make_bytes :: "nat \<Rightarrow> bytes" where
  "make_bytes n = replicate n NUL"

text \<open>A buffer whose first part \<open>p\<close> is written and whose last \<open>n\<close> bytes are still zero.\<close>

definition cursor :: "bytes \<Rightarrow> nat \<Rightarrow> bytes" where
  "cursor p n = p @ replicate n NUL"

lemma make_bytes_cursor [go_frame]: "make_bytes n = cursor [] n"
  by (simp add: make_bytes_def cursor_def)

lemma cursor_done [go_frame]: "cursor p 0 = p"
  by (simp add: cursor_def)

lemma put_byte_cursor [go_frame]:
  "i = length p \<Longrightarrow> 0 < n \<Longrightarrow> put_byte i c (cursor p n) = Some (cursor (p @ [c]) (n - 1))"
  by (cases n) (simp_all add: put_byte_def cursor_def)

lemma copy_at_cursor [go_frame]:
  "i = length p \<Longrightarrow> length s \<le> n \<Longrightarrow> copy_at i s (cursor p n) = Some (cursor (p @ s) (n - length s))"
  by (simp add: copy_at_def cursor_def)

lemma put_uint32_cursor [go_frame]:
  "i = length p \<Longrightarrow> 4 \<le> n \<Longrightarrow> put_uint32 i w (cursor p n) = Some (cursor (p @ be32 w) (n - 4))"
  by (simp add: put_uint32_def cursor_def)

lemma put_uint16_cursor [go_frame]:
  "i = length p \<Longrightarrow> 2 \<le> n \<Longrightarrow> put_uint16 i w (cursor p n) = Some (cursor (p @ be16 w) (n - 2))"
  by (simp add: put_uint16_def cursor_def)

section \<open>Message builders\<close>

definition parameter_status_msg :: "bytes \<Rightarrow> bytes \<Rightarrow> bytes option" where
  "parameter_status_msg key val =
     (let payload_len = 4 + length key + 1 + length val + 1 in do {
        msg \<leftarrow> put_byte 0 CHR ''S'' (make_bytes (1 + payload_len));
        msg \<leftarrow> put_uint32 1 (word_of_nat payload_len) msg;
        msg \<leftarrow> copy_at 5 key msg;
        msg \<leftarrow> put_byte (5 + length key) NUL msg;
        msg \<leftarrow> copy_at (5 + length key + 1) val msg;
        put_byte (5 + length key + 1 + length val) NUL msg
      })"

definition ready_for_query_msg :: "char \<Rightarrow> bytes" where
  "ready_for_query_msg status = [CHR ''Z'', NUL, NUL, NUL, CHR 0x05, status]"

definition error_msg :: "bytes \<Rightarrow> bytes option" where
  "error_msg err =
     (let severity = ''ERROR'';
          payload_len = 4 + 1 + length severity + 1 + 1 + length err + 1 + 1;
          p1 = 5 + 1 + length severity;
          p2 = p1 + 1 + 1 + length err in do {
        msg \<leftarrow> put_byte 0 CHR ''E'' (make_bytes (1 + payload_len));
        msg \<leftarrow> put_uint32 1 (word_of_nat payload_len) msg;
        msg \<leftarrow> put_byte 5 CHR ''S'' msg;
        msg \<leftarrow> copy_at (5 + 1) severity msg;
        msg \<leftarrow> put_byte p1 NUL msg;
        msg \<leftarrow> put_byte (p1 + 1) CHR ''M'' msg;
        msg \<leftarrow> copy_at (p1 + 1 + 1) err msg;
        msg \<leftarrow> put_byte p2 NUL msg;
        put_byte (p2 + 1) NUL msg
      })"

definition command_complete_msg :: "bytes \<Rightarrow> bytes option" where
  "command_complete_msg tag =
     (let payload_len = 4 + length tag + 1 in do {
        msg \<leftarrow> put_byte 0 CHR ''C'' (make_bytes (1 + payload_len));
        msg \<leftarrow> put_uint32 1 (word_of_nat payload_len) msg;
        msg \<leftarrow> copy_at 5 tag msg;
        put_byte (5 + length tag) NUL msg
      })"

text \<open>\<open>pgconn.FieldDescription\<close>; the signed 16 and 32 bit fields as the words they are
  converted to.\<close>

record field_desc =
  f_name :: bytes
  f_table_oid :: "32 word"
  f_attnum :: "16 word"
  f_type_oid :: "32 word"
  f_type_size :: "16 word"
  f_type_mod :: "32 word"
  f_format :: "16 word"

definition field_size :: "field_desc \<Rightarrow> nat" where
  "field_size f = length (f_name f) + 1 + 4 + 2 + 4 + 2 + 4 + 2"

fun put_fields :: "field_desc list \<Rightarrow> nat \<Rightarrow> bytes \<Rightarrow> bytes option" where
  "put_fields [] pos msg = Some msg"
| "put_fields (f # fs) pos msg = do {
     msg \<leftarrow> copy_at pos (f_name f) msg;
     let pos = pos + length (f_name f);
     msg \<leftarrow> put_byte pos NUL msg;
     msg \<leftarrow> put_uint32 (pos + 1) (f_table_oid f) msg;
     msg \<leftarrow> put_uint16 (pos + 1 + 4) (f_attnum f) msg;
     msg \<leftarrow> put_uint32 (pos + 1 + 4 + 2) (f_type_oid f) msg;
     msg \<leftarrow> put_uint16 (pos + 1 + 4 + 2 + 4) (f_type_size f) msg;
     msg \<leftarrow> put_uint32 (pos + 1 + 4 + 2 + 4 + 2) (f_type_mod f) msg;
     msg \<leftarrow> put_uint16 (pos + 1 + 4 + 2 + 4 + 2 + 4) (f_format f) msg;
     put_fields fs (pos + 1 + 4 + 2 + 4 + 2 + 4 + 2) msg
   }"

definition row_description_msg :: "field_desc list \<Rightarrow> bytes option" where
  "row_description_msg fds =
     (let size = 4 + 2 + sum_list (map field_size fds) in do {
        msg \<leftarrow> put_byte 0 CHR ''T'' (make_bytes (1 + size));
        msg \<leftarrow> put_uint32 1 (word_of_nat size) msg;
        msg \<leftarrow> put_uint16 5 (word_of_nat (length fds)) msg;
        put_fields fds 7 msg
      })"

text \<open>A column of a data row: \<open>None\<close> is Go's \<open>nil\<close> slice, an SQL NULL.\<close>

definition column_size :: "bytes option \<Rightarrow> nat" where
  "column_size v = (case v of None \<Rightarrow> 4 | Some b \<Rightarrow> 4 + length b)"

fun put_columns :: "bytes option list \<Rightarrow> nat \<Rightarrow> bytes \<Rightarrow> bytes option" where
  "put_columns [] pos msg = Some msg"
| "put_columns (v # vs) pos msg =
     (case v of
        None \<Rightarrow> do {
          msg \<leftarrow> put_uint32 pos 0xFFFFFFFF msg;
          put_columns vs (pos + 4) msg }
      | Some b \<Rightarrow> do {
          msg \<leftarrow> put_uint32 pos (word_of_nat (length b)) msg;
          msg \<leftarrow> copy_at (pos + 4) b msg;
          put_columns vs (pos + 4 + length b) msg })"

definition data_row_msg :: "bytes option list \<Rightarrow> bytes option" where
  "data_row_msg vals =
     (let size = 4 + 2 + sum_list (map column_size vals) in do {
        msg \<leftarrow> put_byte 0 CHR ''D'' (make_bytes (1 + size));
        msg \<leftarrow> put_uint32 1 (word_of_nat size) msg;
        msg \<leftarrow> put_uint16 5 (word_of_nat (length vals)) msg;
        put_columns vals 7 msg
      })"

section \<open>What the builders produce\<close>

text \<open>A message of the protocol: a type byte, the length of what follows (itself included),
  the payload.\<close>

definition frame :: "char \<Rightarrow> bytes \<Rightarrow> bytes" where
  "frame t payload = t # be32 (word_of_nat (4 + length payload)) @ payload"

definition enc_field :: "field_desc \<Rightarrow> bytes" where
  "enc_field f = f_name f @ [NUL] @ be32 (f_table_oid f) @ be16 (f_attnum f) @ be32 (f_type_oid f)
     @ be16 (f_type_size f) @ be32 (f_type_mod f) @ be16 (f_format f)"

definition enc_column :: "bytes option \<Rightarrow> bytes" where
  "enc_column v = (case v of None \<Rightarrow> be32 0xFFFFFFFF
     | Some b \<Rightarrow> be32 (word_of_nat (length b)) @ b)"

lemma column_simps [simp]:
  "column_size None = 4" "column_size (Some b) = 4 + length b"
  "enc_column None = be32 0xFFFFFFFF"
  "enc_column (Some b) = be32 (word_of_nat (length b)) @ b"
  by (simp_all add: column_size_def enc_column_def)

lemma length_frame [simp]: "length (frame t payload) = 5 + length payload"
  by (simp add: frame_def)

lemma length_enc_field [simp]: "length (enc_field f) = field_size f"
  by (simp add: enc_field_def field_size_def)

lemma length_enc_column [simp]: "length (enc_column v) = column_size v"
  by (simp add: enc_column_def column_size_def split: option.split)

lemma length_concat_enc_field: "length (concat (map enc_field fs)) = sum_list (map field_size fs)"
  by (induction fs) simp_all

lemma length_concat_enc_column: "length (concat (map enc_column vs)) = sum_list (map column_size vs)"
  by (induction vs) simp_all

lemma parameter_status_frame [go_frame]:
  "parameter_status_msg key val = Some (frame CHR ''S'' (key @ [NUL] @ val @ [NUL]))"
  by (simp add: parameter_status_msg_def go_frame frame_def Let_def)

lemma ready_for_query_frame [go_frame]: "ready_for_query_msg status = frame CHR ''Z'' [status]"
  by (simp add: ready_for_query_msg_def frame_def be32_def byte_of_eq_iff)

lemma error_frame [go_frame]:
  "error_msg err = Some (frame CHR ''E'' (''S'' @ ''ERROR'' @ [NUL] @ ''M'' @ err @ [NUL, NUL]))"
  by (simp add: error_msg_def go_frame frame_def Let_def)

lemma command_complete_frame [go_frame]:
  "command_complete_msg tag = Some (frame CHR ''C'' (tag @ [NUL]))"
  by (simp add: command_complete_msg_def go_frame frame_def Let_def)

lemma put_fields_cursor [go_frame]:
  "pos = length p \<Longrightarrow> sum_list (map field_size fs) \<le> n \<Longrightarrow>
    put_fields fs pos (cursor p n) =
      Some (cursor (p @ concat (map enc_field fs)) (n - sum_list (map field_size fs)))"
proof (induction fs arbitrary: p pos n)
  case Nil
  then show ?case by simp
next
  case (Cons f fs)
  show ?case
    using Cons.prems by (simp add: go_frame Let_def field_size_def enc_field_def Cons.IH)
qed

lemma row_description_frame [go_frame]:
  "row_description_msg fs =
    Some (frame CHR ''T'' (be16 (word_of_nat (length fs)) @ concat (map enc_field fs)))"
  by (simp add: row_description_msg_def go_frame frame_def Let_def length_concat_enc_field)

lemma put_columns_cursor [go_frame]:
  "pos = length p \<Longrightarrow> sum_list (map column_size vs) \<le> n \<Longrightarrow>
    put_columns vs pos (cursor p n) =
      Some (cursor (p @ concat (map enc_column vs)) (n - sum_list (map column_size vs)))"
proof (induction vs arbitrary: p pos n)
  case Nil
  then show ?case by simp
next
  case (Cons v vs)
  show ?case
    using Cons.prems by (cases v) (simp_all add: go_frame Let_def Cons.IH)
qed

lemma data_row_frame [go_frame]:
  "data_row_msg vs =
    Some (frame CHR ''D'' (be16 (word_of_nat (length vs)) @ concat (map enc_column vs)))"
  by (simp add: data_row_msg_def go_frame frame_def Let_def length_concat_enc_column)

section \<open>The client's reading of the messages\<close>

text \<open>The protocol's own reading of a data row and of a row description, as a client decodes
  their payloads; the specification the builders are checked against.\<close>

fun dec_columns :: "nat \<Rightarrow> bytes \<Rightarrow> bytes option list option" where
  "dec_columns 0 s = (if s = [] then Some [] else None)"
| "dec_columns (Suc n) s = do {
     w \<leftarrow> get_be32 s;
     if w = 0xFFFFFFFF then do {
       vs \<leftarrow> dec_columns n (drop 4 s);
       Some (None # vs) }
     else if length s < 4 + unat w then None
     else do {
       vs \<leftarrow> dec_columns n (drop (4 + unat w) s);
       Some (Some (take (unat w) (drop 4 s)) # vs) }
   }"

definition dec_data_row :: "bytes \<Rightarrow> bytes option list option" where
  "dec_data_row payload = do {
     n \<leftarrow> get_be16 payload;
     dec_columns (unat n) (drop 2 payload) }"

definition dec_field :: "bytes \<Rightarrow> (field_desc \<times> bytes) option" where
  "dec_field s = do {
     i \<leftarrow> index_byte s NUL;
     let s1 = drop (i + 1) s;
     table_oid \<leftarrow> get_be32 s1;
     attnum \<leftarrow> get_be16 (drop 4 s1);
     type_oid \<leftarrow> get_be32 (drop 6 s1);
     type_size \<leftarrow> get_be16 (drop 10 s1);
     type_mod \<leftarrow> get_be32 (drop 12 s1);
     format \<leftarrow> get_be16 (drop 16 s1);
     Some (\<lparr>f_name = take i s, f_table_oid = table_oid, f_attnum = attnum, f_type_oid = type_oid,
            f_type_size = type_size, f_type_mod = type_mod, f_format = format\<rparr>, drop 18 s1) }"

fun dec_fields :: "nat \<Rightarrow> bytes \<Rightarrow> field_desc list option" where
  "dec_fields 0 s = (if s = [] then Some [] else None)"
| "dec_fields (Suc n) s = do {
     (f, s') \<leftarrow> dec_field s;
     fs \<leftarrow> dec_fields n s';
     Some (f # fs) }"

definition dec_row_description :: "bytes \<Rightarrow> field_desc list option" where
  "dec_row_description payload = do {
     n \<leftarrow> get_be16 payload;
     dec_fields (unat n) (drop 2 payload) }"

lemma unat_of_nat_32 [simp]: "n < 2 ^ 32 \<Longrightarrow> unat (word_of_nat n :: 32 word) = n"
  by (simp add: unat_of_nat take_bit_nat_eq_self)

lemma unat_of_nat_16 [simp]: "n < 2 ^ 16 \<Longrightarrow> unat (word_of_nat n :: 16 word) = n"
  by (simp add: unat_of_nat take_bit_nat_eq_self)

lemma drop_be [simp]:
  "drop 4 (be32 w @ s) = s" "drop 2 (be16 h @ s) = s"
  by simp_all

lemma dec_columns_enc:
  assumes "\<forall>v \<in> set vs. \<forall>b. v = Some b \<longrightarrow> length b < 2 ^ 32 - 1"
  shows "dec_columns (length vs) (concat (map enc_column vs)) = Some vs"
  using assms
proof (induction vs)
  case Nil
  show ?case by simp
next
  case (Cons v vs)
  show ?case
  proof (cases v)
    case None
    with Cons show ?thesis
      by simp
  next
    case (Some b)
    with Cons.prems have len: "length b < 2 ^ 32 - 1"
      by simp
    then have u: "unat (word_of_nat (length b) :: 32 word) = length b"
      by simp
    have "(word_of_nat (length b) :: 32 word) \<noteq> 0xFFFFFFFF"
    proof
      assume "(word_of_nat (length b) :: 32 word) = 0xFFFFFFFF"
      then have "length b = unat (0xFFFFFFFF :: 32 word)"
        using u by simp
      with len show False
        by simp
    qed
    with Some Cons u show ?thesis
      by simp
  qed
qed

lemma dec_field_enc:
  assumes "NUL \<notin> set (f_name f)"
  shows "dec_field (enc_field f @ s) = Some (f, s)"
proof -
  let ?tail = "be32 (f_table_oid f) @ be16 (f_attnum f) @ be32 (f_type_oid f) @
    be16 (f_type_size f) @ be32 (f_type_mod f) @ be16 (f_format f) @ s"
  have d: "drop 4 ?tail = be16 (f_attnum f) @ be32 (f_type_oid f) @
      be16 (f_type_size f) @ be32 (f_type_mod f) @ be16 (f_format f) @ s"
    "drop 6 ?tail = be32 (f_type_oid f) @ be16 (f_type_size f) @ be32 (f_type_mod f) @
      be16 (f_format f) @ s"
    "drop 10 ?tail = be16 (f_type_size f) @ be32 (f_type_mod f) @ be16 (f_format f) @ s"
    "drop 12 ?tail = be32 (f_type_mod f) @ be16 (f_format f) @ s"
    "drop 16 ?tail = be16 (f_format f) @ s"
    "drop 18 ?tail = s"
    by simp_all
  have i: "index_byte (f_name f @ NUL # ?tail) NUL = Some (length (f_name f))"
    by (rule index_byte_append [OF assms])
  have t: "drop (length (f_name f) + 1) (f_name f @ NUL # ?tail) = ?tail"
    "take (length (f_name f)) (f_name f @ NUL # ?tail) = f_name f"
    by simp_all
  have e: "enc_field f @ s = f_name f @ NUL # ?tail"
    by (simp add: enc_field_def)
  show ?thesis
    unfolding e dec_field_def i Let_def Option.bind.bind_lunit t d get_be32_be32 get_be16_be16
    by simp
qed

lemma dec_fields_enc:
  assumes "\<forall>f \<in> set fs. NUL \<notin> set (f_name f)"
  shows "dec_fields (length fs) (concat (map enc_field fs)) = Some fs"
  using assms by (induction fs) (simp_all add: dec_field_enc)

section \<open>The client connection\<close>

text \<open>
  A \<open>net.Conn\<close>: the bytes the client is still going to send and the error a read meets
  after them (\<open>io.EOF\<close> when the client closes in good order), the bytes written so far,
  and how many writes there were. What becomes of the \<open>n\<close>-th write is given by a
  \<open>write_fate\<close>: all of it goes through, or only \<open>k\<close> bytes do and \<open>Write\<close> returns
  an error.
\<close>

record conn =
  inp :: bytes
  inp_end :: gerr
  out :: bytes
  writes :: nat
  closed :: bool

type_synonym write_fate = "nat \<Rightarrow> (nat \<times> gerr) option"

definition conn_write :: "write_fate \<Rightarrow> bytes \<Rightarrow> conn \<Rightarrow> gerr option \<times> conn" where
  "conn_write fate msg c =
     (case fate (writes c) of
        None \<Rightarrow> (None, c\<lparr>out := out c @ msg, writes := writes c + 1\<rparr>)
      | Some (k, e) \<Rightarrow> (Some e, c\<lparr>out := out c @ take k msg, writes := writes c + 1\<rparr>))"

text \<open>\<open>io.ReadFull\<close>.\<close>

definition read_full :: "nat \<Rightarrow> conn \<Rightarrow> (gerr + bytes) \<times> conn" where
  "read_full n c =
     (if n \<le> length (inp c) then (Inr (take n (inp c)), c\<lparr>inp := drop n (inp c)\<rparr>)
      else (Inl (if inp c \<noteq> [] \<and> inp_end c = EOF then UnexpectedEOF else inp_end c), c\<lparr>inp := []\<rparr>))"

definition startup_limit :: nat where
  "startup_limit = 10000"

definition read_raw_message :: "conn \<Rightarrow> bool \<Rightarrow> (gerr + bytes) \<times> conn" where
  "read_raw_message c is_startup =
     (if is_startup then
        (case read_full 4 c of
           (Inl e, c) \<Rightarrow> (Inl e, c)
         | (Inr len_buf, c) \<Rightarrow>
             let msg_len = (case get_be32 len_buf of Some w \<Rightarrow> unat w | None \<Rightarrow> 0) in
             if msg_len < 4 \<or> startup_limit < msg_len then
               (Inl (ErrMsg (''invalid startup message length: '' @ decimal msg_len)), c)
             else
               (case read_full (msg_len - 4) c of
                  (Inl e, c) \<Rightarrow> (Inl e, c)
                | (Inr body, c) \<Rightarrow> (Inr (len_buf @ body), c)))
      else
        (case read_full 5 c of
           (Inl e, c) \<Rightarrow> (Inl e, c)
         | (Inr header, c) \<Rightarrow>
             let msg_len = (case get_be32 (drop 1 header) of Some w \<Rightarrow> unat w | None \<Rightarrow> 0) in
             if msg_len < 4 then
               (Inl (ErrMsg (''invalid message length: '' @ decimal msg_len)), c)
             else if 4 < msg_len then
               (case read_full (msg_len - 4) c of
                  (Inl e, c) \<Rightarrow> (Inl e, c)
                | (Inr body, c) \<Rightarrow> (Inr (header @ body), c))
             else (Inr header, c)))"

text \<open>Every \<open>send\<close> function builds its message and writes it; the outer \<open>None\<close> is a
  panic, the inner option the returned error.\<close>

type_synonym io_result = "(gerr option \<times> conn) option"

definition send_bytes :: "write_fate \<Rightarrow> bytes option \<Rightarrow> conn \<Rightarrow> io_result" where
  "send_bytes fate m c = do { msg \<leftarrow> m; Some (conn_write fate msg c) }"

definition send_parameter_status :: "write_fate \<Rightarrow> bytes \<Rightarrow> bytes \<Rightarrow> conn \<Rightarrow> io_result" where
  "send_parameter_status fate key val = send_bytes fate (parameter_status_msg key val)"

definition send_ready_for_query :: "write_fate \<Rightarrow> char \<Rightarrow> conn \<Rightarrow> io_result" where
  "send_ready_for_query fate status = send_bytes fate (Some (ready_for_query_msg status))"

definition send_error :: "write_fate \<Rightarrow> bytes \<Rightarrow> conn \<Rightarrow> io_result" where
  "send_error fate err = send_bytes fate (error_msg err)"

definition send_command_complete :: "write_fate \<Rightarrow> bytes \<Rightarrow> conn \<Rightarrow> io_result" where
  "send_command_complete fate tag = send_bytes fate (command_complete_msg tag)"

definition send_row_description :: "write_fate \<Rightarrow> field_desc list \<Rightarrow> conn \<Rightarrow> io_result" where
  "send_row_description fate fds = send_bytes fate (row_description_msg fds)"

definition send_data_row :: "write_fate \<Rightarrow> bytes option list \<Rightarrow> conn \<Rightarrow> io_result" where
  "send_data_row fate vals = send_bytes fate (data_row_msg vals)"

text \<open>\<open>if err := f(...); err != nil { return err }\<close>: go on only after a \<open>nil\<close> error.\<close>

definition and_then :: "io_result \<Rightarrow> (conn \<Rightarrow> io_result) \<Rightarrow> io_result" where
  "and_then r f = do {
     (e, c) \<leftarrow> r;
     (case e of Some e \<Rightarrow> Some (Some e, c) | None \<Rightarrow> f c) }"

fun send_parameters :: "write_fate \<Rightarrow> (bytes \<times> bytes) list \<Rightarrow> conn \<Rightarrow> io_result" where
  "send_parameters fate [] c = Some (None, c)"
| "send_parameters fate ((k, v) # kvs) c =
     and_then (send_parameter_status fate k v c) (send_parameters fate kvs)"

definition auth_parameters :: "(bytes \<times> bytes) list" where
  "auth_parameters =
     [(''server_version'', ''16.0 (pgproxy)''), (''client_encoding'', ''UTF8''),
      (''server_encoding'', ''UTF8''), (''DateStyle'', ''ISO, MDY''),
      (''integer_datetimes'', ''on''), (''standard_conforming_strings'', ''on'')]"

definition send_auth_ok :: "write_fate \<Rightarrow> conn \<Rightarrow> io_result" where
  "send_auth_ok fate c =
     and_then (send_bytes fate (Some [CHR ''R'', NUL, NUL, NUL, CHR 0x08, NUL, NUL, NUL, NUL]) c) (\<lambda>c.
     and_then (send_parameters fate auth_parameters c) (\<lambda>c.
     and_then (send_bytes fate (Some [CHR ''K'', NUL, NUL, NUL, CHR 0x0C, NUL, NUL, NUL, CHR 0x01,
                                    NUL, NUL, NUL, CHR 0x01]) c) (\<lambda>c.
     send_ready_for_query fate CHR ''I'' c)))"

section \<open>Reading requests\<close>

text \<open>The loops that look for the first zero byte keep \<open>0\<close> when there is none.\<close>

definition nul_index :: "bytes \<Rightarrow> nat" where
  "nul_index s = (case index_byte s NUL of Some i \<Rightarrow> i | None \<Rightarrow> 0)"

function parse_params :: "bytes \<Rightarrow> bytes \<Rightarrow> bytes \<Rightarrow> (bytes \<times> bytes) option" where
  "parse_params params user database =
     (if 1 < length params then
        let key_end = nul_index params;
            key = take key_end params;
            params1 = drop (key_end + 1) params;
            val_end = nul_index params1;
            val = take val_end params1 in
        if length params1 < val_end + 1 then None
        else
          let params2 = drop (val_end + 1) params1 in
          if key = ''user'' then parse_params params2 val database
          else if key = ''database'' then parse_params params2 user val
          else parse_params params2 user database
      else Some (user, database))"
  by pat_completeness auto
termination
  by (relation "measure (\<lambda>(params, user, database). length params)") auto

declare parse_params.simps [simp del]

definition parse_startup_params :: "bytes \<Rightarrow> (bytes \<times> bytes) option" where
  "parse_startup_params msg =
     (if length msg < 8 then Some ([], []) else parse_params (drop 8 msg) [] [])"

text \<open>\<open>for i, b := range payload { if b == 0 { return string(payload[:i]) } }; return
  string(payload)\<close>.\<close>

definition c_string :: "bytes \<Rightarrow> bytes" where
  "c_string payload = (case index_byte payload NUL of Some i \<Rightarrow> take i payload | None \<Rightarrow> payload)"

definition extract_sql :: "bytes \<Rightarrow> bytes" where
  "extract_sql msg =
     (if length msg < 6 then []
      else if msg ! 0 = CHR ''Q'' then c_string (drop 5 msg)
      else if msg ! 0 = CHR ''P'' then
        let payload = drop 5 msg;
            name_end = (case index_byte payload NUL of Some i \<Rightarrow> i + 1 | None \<Rightarrow> 0)
        in c_string (drop name_end payload)
      else [])"

definition truncate_sql :: "bytes \<Rightarrow> bytes" where
  "truncate_sql sql = (if 60 < length sql then take 57 sql @ ''...'' else sql)"

section \<open>Facts about the connection\<close>

lemma conn_write_frame [go_state]:
  "inp (snd (conn_write fate m c)) = inp c" "inp_end (snd (conn_write fate m c)) = inp_end c"
  "closed (snd (conn_write fate m c)) = closed c"
  by (simp_all add: conn_write_def split: option.split prod.split)

lemma conn_write_ok [simp]:
  "fate (writes c) = None \<Longrightarrow> conn_write fate m c = (None, c\<lparr>out := out c @ m, writes := writes c + 1\<rparr>)"
  by (simp add: conn_write_def)

lemma send_eqs [go_frame]:
  "send_parameter_status fate k v c = Some (conn_write fate (frame CHR ''S'' (k @ [NUL] @ v @ [NUL])) c)"
  "send_ready_for_query fate st c = Some (conn_write fate (frame CHR ''Z'' [st]) c)"
  "send_error fate err c =
     Some (conn_write fate (frame CHR ''E'' (''S'' @ ''ERROR'' @ [NUL] @ ''M'' @ err @ [NUL, NUL])) c)"
  "send_command_complete fate tag c = Some (conn_write fate (frame CHR ''C'' (tag @ [NUL])) c)"
  "send_row_description fate fs c = Some (conn_write fate
     (frame CHR ''T'' (be16 (word_of_nat (length fs)) @ concat (map enc_field fs))) c)"
  "send_data_row fate vs c = Some (conn_write fate
     (frame CHR ''D'' (be16 (word_of_nat (length vs)) @ concat (map enc_column vs))) c)"
  unfolding send_parameter_status_def send_ready_for_query_def send_error_def
    send_command_complete_def send_row_description_def send_data_row_def send_bytes_def
    parameter_status_frame ready_for_query_frame error_frame command_complete_frame
    row_description_frame data_row_frame
  by simp_all

lemma and_then_simps [simp]:
  "and_then (Some (None, c)) f = f c" "and_then (Some (Some e, c)) f = Some (Some e, c)"
  "and_then None f = None"
  by (simp_all add: and_then_def)

lemma read_full_ok [simp]:
  "inp c = xs @ rest \<Longrightarrow> n = length xs \<Longrightarrow> read_full n c = (Inr xs, c\<lparr>inp := rest\<rparr>)"
  by (simp add: read_full_def)

lemma read_full_Inr:
  "read_full n c = (Inr b, c') \<Longrightarrow>
    inp c = b @ inp c' \<and> length b = n \<and> c' = c\<lparr>inp := inp c'\<rparr>"
  by (auto simp: read_full_def split: if_splits)

lemma read_raw_message_frame:
  assumes "inp c = frame t payload @ rest" and "length payload + 4 < 2 ^ 32"
  shows "read_raw_message c False = (Inr (frame t payload), c\<lparr>inp := rest\<rparr>)"
proof -
  let ?w = "word_of_nat (4 + length payload) :: 32 word"
  have c: "inp c = (t # be32 ?w) @ payload @ rest"
    using assms(1) by (simp add: frame_def)
  have u: "unat ?w = 4 + length payload"
    by (rule unat_of_nat_32) (use assms(2) in simp)
  have g: "get_be32 (drop 1 (t # be32 ?w)) = Some ?w"
    using get_be32_be32 [of ?w "[]"] by simp
  have r: "read_full 5 c = (Inr (t # be32 ?w), c\<lparr>inp := payload @ rest\<rparr>)"
    using read_full_ok [OF c, of 5] by simp
  show ?thesis
    unfolding read_raw_message_def r prod.case sum.case g option.case u Let_def
    by (auto simp: frame_def)
qed

text \<open>A message read is at least its five header bytes, and what was read is gone.\<close>

lemma read_raw_message_Inr:
  assumes "read_raw_message c False = (Inr m, c')"
  shows "inp c = m @ inp c'" and "5 \<le> length m" and "c' = c\<lparr>inp := inp c'\<rparr>"
  using assms unfolding read_raw_message_def Let_def
  by (auto split: sum.splits prod.splits if_splits dest!: read_full_Inr)

lemma read_raw_message_out:
  "out (snd (read_raw_message c b)) = out c \<and> writes (snd (read_raw_message c b)) = writes c
    \<and> closed (snd (read_raw_message c b)) = closed c"
  unfolding read_raw_message_def read_full_def Let_def
  by (auto split: sum.splits prod.splits if_splits)

definition startup_message :: "bytes \<Rightarrow> bytes" where
  "startup_message body = be32 (word_of_nat (4 + length body)) @ body"

lemma read_raw_message_startup:
  assumes "inp c = startup_message body @ rest" and "length body + 4 \<le> startup_limit"
  shows "read_raw_message c True = (Inr (startup_message body), c\<lparr>inp := rest\<rparr>)"
proof -
  let ?w = "word_of_nat (4 + length body) :: 32 word"
  have c: "inp c = be32 ?w @ body @ rest"
    using assms(1) by (simp add: startup_message_def)
  have u: "unat ?w = 4 + length body"
    by (rule unat_of_nat_32) (use assms(2) in \<open>simp add: startup_limit_def\<close>)
  have g: "get_be32 (be32 ?w) = Some ?w"
    using get_be32_be32 [of ?w "[]"] by simp
  have r: "read_full 4 c = (Inr (be32 ?w), c\<lparr>inp := body @ rest\<rparr>)"
    using read_full_ok [OF c, of 4] by simp
  show ?thesis
    using assms(2) unfolding read_raw_message_def r prod.case sum.case g option.case u Let_def
    by (auto simp: startup_message_def)
qed

section \<open>Facts about the readers\<close>

lemma c_string_terminated [simp]: "NUL \<notin> set s \<Longrightarrow> c_string (s @ NUL # t) = s"
  by (simp add: c_string_def index_byte_append)

lemma nul_index_append: "NUL \<notin> set s \<Longrightarrow> nul_index (s @ NUL # t) = length s"
  by (simp add: nul_index_def index_byte_append)

lemma parse_params_short [simp]: "length t \<le> 1 \<Longrightarrow> parse_params t u d = Some (u, d)"
  by (subst parse_params.simps) simp

lemma parse_params_pair:
  assumes "NUL \<notin> set k" and "NUL \<notin> set v"
  shows "parse_params (k @ NUL # v @ NUL # t) u d =
    parse_params t (if k = ''user'' then v else u)
      (if k \<noteq> ''user'' \<and> k = ''database'' then v else d)"
  using assms by (subst parse_params.simps) (simp add: nul_index_append Let_def)

lemma parse_params_no_value:
  assumes "NUL \<notin> set k" and "k \<noteq> []"
  shows "parse_params (k @ [NUL]) u d = None"
  using assms nul_index_append [of k "[]"] by (subst parse_params.simps) (simp add: Let_def)

definition enc_params :: "(bytes \<times> bytes) list \<Rightarrow> bytes" where
  "enc_params kvs = concat (map (\<lambda>(k, v). k @ NUL # v @ [NUL]) kvs)"

text \<open>The value of the last pair with a given key.\<close>

definition last_value :: "bytes \<Rightarrow> (bytes \<times> bytes) list \<Rightarrow> bytes \<Rightarrow> bytes" where
  "last_value key kvs dflt = (case map_of (rev kvs) key of Some v \<Rightarrow> v | None \<Rightarrow> dflt)"

lemma last_value_simps [simp]:
  "last_value key [] dflt = dflt"
  "last_value key ((k, v) # kvs) dflt = last_value key kvs (if k = key then v else dflt)"
  by (auto simp: last_value_def map_add_def split: option.split)

lemma parse_params_enc:
  assumes "\<forall>(k, v) \<in> set kvs. NUL \<notin> set k \<and> NUL \<notin> set v"
  shows "parse_params (enc_params kvs @ t) u d =
    parse_params t (last_value ''user'' kvs u) (last_value ''database'' kvs d)"
  using assms
proof (induction kvs arbitrary: u d)
  case Nil
  show ?case by (simp add: enc_params_def)
next
  case (Cons kv kvs)
  obtain k v where kv: "kv = (k, v)"
    by (cases kv)
  have "enc_params (kv # kvs) @ t = k @ NUL # v @ NUL # (enc_params kvs @ t)"
    by (simp add: kv enc_params_def)
  then show ?case
    using Cons kv by (simp add: parse_params_pair)
qed

lemma be32_read:
  assumes "get_be32 (drop 1 h) = Some w" and "length h = 5"
  shows "h = hd h # be32 w"
proof -
  obtain t a b c d where h: "h = [t, a, b, c, d]"
    using assms(2) by (auto simp: length_Suc_conv numeral_eq_Suc)
  then show ?thesis
    using be32_get_be32 [of a b c d w] assms(1) by simp
qed

lemma get_be32_length: "4 \<le> length s \<Longrightarrow> \<exists>w. get_be32 s = Some w"
  by (cases s rule: get_be32.cases) auto

lemma extract_sql_frames:
  assumes "NUL \<notin> set sql"
  shows "extract_sql (frame CHR ''Q'' (sql @ NUL # rest)) = sql"
    and "NUL \<notin> set name \<Longrightarrow> extract_sql (frame CHR ''P'' (name @ NUL # sql @ NUL # rest)) = sql"
proof -
  have "drop 5 (frame t p) = p" for t p
    by (simp add: frame_def)
  then show "extract_sql (frame CHR ''Q'' (sql @ NUL # rest)) = sql"
    and "NUL \<notin> set name \<Longrightarrow> extract_sql (frame CHR ''P'' (name @ NUL # sql @ NUL # rest)) = sql"
    using assms by (simp_all add: extract_sql_def index_byte_append Let_def) (simp_all add: frame_def)
qed

section \<open>Properties\<close>

text \<open>
  \<open>readRawMessage\<close> frames exactly: a message it returns is one type byte, a length
  word that counts the rest, and that many bytes; it is the front of what the client sent,
  and only it is consumed.
\<close>

theorem read_raw_message_exact:
  assumes "read_raw_message c False = (Inr m, c')"
  shows "\<exists>t payload. m = frame t payload \<and> inp c = m @ inp c' \<and> length payload + 4 < 2 ^ 32"
proof -
  obtain h c1 where h: "read_full 5 c = (Inr h, c1)"
    using assms by (auto simp: read_raw_message_def split: sum.splits prod.splits)
  then have len: "length h = 5"
    by (auto dest!: read_full_Inr)
  obtain w where w: "get_be32 (drop 1 h) = Some w"
    using get_be32_length [of "drop 1 h"] len by auto
  have hd: "h = hd h # be32 w"
    by (rule be32_read [OF w len])
  have "unat w < 2 ^ 32"
    using unsigned_less [of w, where ?'a = nat] by simp
  moreover have "\<exists>payload. m = h @ payload \<and> unat w = 4 + length payload"
    using assms h w by (auto simp: read_raw_message_def Let_def split: sum.splits prod.splits if_splits
        dest!: read_full_Inr)
  ultimately obtain payload where "m = h @ payload" "unat w = 4 + length payload"
    "length payload + 4 < 2 ^ 32"
    by auto
  moreover from this have "word_of_nat (4 + length payload) = w"
    by (metis of_nat_unat ucast_id)
  ultimately have "m = frame (hd h) payload"
    using hd unfolding frame_def by (metis append_Cons)
  with \<open>length payload + 4 < 2 ^ 32\<close> read_raw_message_Inr(1) [OF assms] show ?thesis
    by blast
qed

theorem read_raw_message_exact_witness:
  "\<exists>t payload. frame CHR ''Q'' ''SELECT 1'' = frame t payload
    \<and> frame CHR ''Q'' ''SELECT 1'' @ ''X'' = frame CHR ''Q'' ''SELECT 1'' @ ''X''
    \<and> length payload + 4 < 2 ^ 32"
proof -
  let ?c = "\<lparr>inp = frame CHR ''Q'' ''SELECT 1'' @ ''X'', inp_end = EOF, out = [], writes = 0,
    closed = False\<rparr>"
  have "read_raw_message ?c False = (Inr (frame CHR ''Q'' ''SELECT 1''), ?c\<lparr>inp := ''X''\<rparr>)"
    by (rule read_raw_message_frame) simp_all
  from read_raw_message_exact [OF this] show ?thesis
    by simp
qed

text \<open>
  C22. A data row survives the wire: what \<open>sendDataRow\<close> builds never panics, is read back as
  one message, and decodes to the same columns; NULL and the empty string stay apart.
\<close>

theorem data_row_roundtrip:
  assumes "length vals < 2 ^ 16" and "\<forall>v \<in> set vals. \<forall>b. v = Some b \<longrightarrow> length b < 2 ^ 32 - 1"
    and "6 + sum_list (map column_size vals) < 2 ^ 32"
  shows "\<exists>msg. data_row_msg vals = Some msg
    \<and> read_raw_message (c\<lparr>inp := msg @ rest\<rparr>) False = (Inr msg, c\<lparr>inp := rest\<rparr>)
    \<and> dec_data_row (drop 5 msg) = Some vals"
proof -
  let ?p = "be16 (word_of_nat (length vals)) @ concat (map enc_column vals)"
  have "length ?p + 4 < 2 ^ 32"
    using assms(3) by (simp add: length_concat_enc_column)
  then have "read_raw_message (c\<lparr>inp := frame CHR ''D'' ?p @ rest\<rparr>) False
      = (Inr (frame CHR ''D'' ?p), c\<lparr>inp := rest\<rparr>)"
    using read_raw_message_frame [of "c\<lparr>inp := frame CHR ''D'' ?p @ rest\<rparr>" _ ?p rest] by simp
  moreover have "dec_data_row (drop 5 (frame CHR ''D'' ?p)) = Some vals"
    using dec_columns_enc [OF assms(2)] assms(1) by (simp add: dec_data_row_def frame_def)
  ultimately show ?thesis
    by (simp add: data_row_frame)
qed

theorem data_row_roundtrip_witness:
  "\<exists>msg. data_row_msg [Some ''1'', None, Some []] = Some msg
    \<and> dec_data_row (drop 5 msg) = Some [Some ''1'', None, Some []]"
  using data_row_roundtrip [where vals = "[Some ''1'', None, Some []]"] by auto

text \<open>
  A row description survives the wire: for column names without a zero byte the client
  reads one message that decodes to the same descriptions.
\<close>

theorem row_description_roundtrip:
  assumes "length fds < 2 ^ 16" and "\<forall>f \<in> set fds. NUL \<notin> set (f_name f)"
    and "6 + sum_list (map field_size fds) < 2 ^ 32"
  shows "\<exists>msg. row_description_msg fds = Some msg
    \<and> read_raw_message (c\<lparr>inp := msg @ rest\<rparr>) False = (Inr msg, c\<lparr>inp := rest\<rparr>)
    \<and> dec_row_description (drop 5 msg) = Some fds"
proof -
  let ?p = "be16 (word_of_nat (length fds)) @ concat (map enc_field fds)"
  have "length ?p + 4 < 2 ^ 32"
    using assms(3) by (simp add: length_concat_enc_field)
  then have "read_raw_message (c\<lparr>inp := frame CHR ''T'' ?p @ rest\<rparr>) False
      = (Inr (frame CHR ''T'' ?p), c\<lparr>inp := rest\<rparr>)"
    using read_raw_message_frame [of "c\<lparr>inp := frame CHR ''T'' ?p @ rest\<rparr>" _ ?p rest] by simp
  moreover have "dec_row_description (drop 5 (frame CHR ''T'' ?p)) = Some fds"
    using dec_fields_enc [OF assms(2)] assms(1) by (simp add: dec_row_description_def frame_def)
  ultimately show ?thesis
    by (simp add: row_description_frame)
qed

theorem row_description_roundtrip_witness:
  "\<exists>msg. row_description_msg [\<lparr>f_name = ''id'', f_table_oid = 7, f_attnum = 1, f_type_oid = 23,
      f_type_size = 4, f_type_mod = -1, f_format = 0\<rparr>] = Some msg
    \<and> dec_row_description (drop 5 msg) = Some [\<lparr>f_name = ''id'', f_table_oid = 7, f_attnum = 1,
      f_type_oid = 23, f_type_size = 4, f_type_mod = -1, f_format = 0\<rparr>]"
  using row_description_roundtrip [where fds = "[\<lparr>f_name = ''id'', f_table_oid = 7, f_attnum = 1,
      f_type_oid = 23, f_type_size = 4, f_type_mod = -1, f_format = 0\<rparr>]"]
  by (auto simp: field_size_def)

text \<open>
  A well-formed startup message, a list of key/value pairs after the eight header bytes and
  a final zero byte, is parsed without a panic to the last value given for \<open>user\<close> and for
  \<open>database\<close>, empty when there is none.
\<close>

theorem parse_startup_params_roundtrip:
  assumes "\<forall>(k, v) \<in> set kvs. NUL \<notin> set k \<and> NUL \<notin> set v" and "length header = 8"
  shows "parse_startup_params (header @ enc_params kvs @ [NUL]) =
    Some (last_value ''user'' kvs [], last_value ''database'' kvs [])"
  using assms(2) by (simp add: parse_startup_params_def parse_params_enc [OF assms(1)])

theorem parse_startup_params_roundtrip_witness:
  "parse_startup_params (replicate 8 NUL @ enc_params [(''user'', ''lab''), (''database'', ''wallab'')] @ [NUL])
    = Some (''lab'', ''wallab'')"
  using parse_startup_params_roundtrip [of "[(''user'', ''lab''), (''database'', ''wallab'')]" "replicate 8 NUL"]
  by simp

text \<open>
  A startup message whose last key has no value makes \<open>parseStartupParams\<close> slice past the
  end of its buffer: whatever pairs come first, a key that is the last thing before the end of
  the message is a run-time panic, which nothing in the connection's goroutine recovers.
\<close>

theorem parse_startup_params_panics:
  assumes "\<forall>(k, v) \<in> set kvs. NUL \<notin> set k \<and> NUL \<notin> set v" and "length header = 8"
    and "NUL \<notin> set key" and "key \<noteq> []"
  shows "parse_startup_params (header @ enc_params kvs @ key @ [NUL]) = None"
  using assms(2) by (simp add: parse_startup_params_def parse_params_enc [OF assms(1)]
      parse_params_no_value [OF assms(3,4)])

theorem parse_startup_params_panics_witness:
  "parse_startup_params (replicate 8 NUL @ enc_params [] @ ''a'' @ [NUL]) = None"
  using parse_startup_params_panics [of "[]" "replicate 8 NUL" "''a''"] by simp

text \<open>
  The SQL text of a simple query, and of a parse message with a statement name, is
  recovered exactly, whatever follows its terminating zero byte.
\<close>

theorem extract_sql_roundtrip:
  assumes "NUL \<notin> set sql" and "NUL \<notin> set name"
  shows "extract_sql (frame CHR ''Q'' (sql @ NUL # rest)) = sql
    \<and> extract_sql (frame CHR ''P'' (name @ NUL # sql @ NUL # rest)) = sql"
  using assms by (simp add: extract_sql_frames)

theorem extract_sql_roundtrip_witness:
  "extract_sql (frame CHR ''Q'' (''SELECT 1'' @ NUL # [])) = ''SELECT 1''
    \<and> extract_sql (frame CHR ''P'' (''s1'' @ NUL # ''SELECT 1'' @ NUL # [])) = ''SELECT 1''"
  by (rule extract_sql_roundtrip) simp_all

end
