(* ===== verification/Proxy.thy ===== *)
theory Proxy
  imports Classifier Wire
begin

text \<open>
  \<open>handleClient\<close> and \<open>executeAndRelay\<close> of \<open>internal/proxy/proxy.go\<close>: the handshake,
  the message loop with its transaction state, the choice of the backend, and the relaying of
  a result. The pgx pools are not part of the repository: what a query returns is the
  parameter \<open>e_query\<close>, which also threads the state \<open>'w\<close> of the two databases.
\<close>

section \<open>The environment of a connection\<close>

datatype backend = Primary | Replica

text \<open>
  \<open>pgx.Rows\<close>, as the code uses it: the column descriptions, the rows that \<open>Next\<close> steps
  through, the error \<open>Err()\<close> has after them, and the command tag before (\<open>r_tag_open\<close>)
  and after (\<open>r_tag\<close>) the rows have been read to their end.
\<close>

record rows =
  r_fields :: "field_desc list"
  r_data :: "bytes option list list"
  r_err :: "gerr option"
  r_tag_open :: bytes
  r_tag :: bytes

text \<open>
  \<open>e_upper\<close> is the case table of \<open>unicode\<close>, \<open>e_query\<close> is \<open>pool.Query\<close> on either
  pool, \<open>e_cancelled k\<close> is \<open>ctx.Err() != nil\<close> at the head of the \<open>k\<close>-th iteration
  of the message loop, \<open>e_fate\<close> decides the writes to the client.
\<close>

record 'w env =
  e_upper :: "nat \<Rightarrow> nat"
  e_query :: "backend \<Rightarrow> bytes \<Rightarrow> 'w \<Rightarrow> (gerr + rows) \<times> 'w"
  e_cancelled :: "nat \<Rightarrow> bool"
  e_fate :: write_fate

section \<open>Relaying a result\<close>

text \<open>The copy of a field description made for \<open>sendRowDescription\<close>.\<close>

definition copy_field :: "field_desc \<Rightarrow> field_desc" where
  "copy_field f = \<lparr>f_name = f_name f, f_table_oid = f_table_oid f, f_attnum = f_attnum f,
     f_type_oid = f_type_oid f, f_type_size = f_type_size f, f_type_mod = f_type_mod f,
     f_format = f_format f\<rparr>"

fun send_data_rows :: "write_fate \<Rightarrow> bytes option list list \<Rightarrow> conn \<Rightarrow> io_result" where
  "send_data_rows fate [] c = Some (None, c)"
| "send_data_rows fate (r # rs) c = and_then (send_data_row fate r c) (send_data_rows fate rs)"

text \<open>The end of \<open>executeAndRelay\<close>: \<open>CommandComplete\<close> and \<open>ReadyForQuery\<close>.\<close>

definition finish_reply :: "write_fate \<Rightarrow> bytes \<Rightarrow> char \<Rightarrow> conn \<Rightarrow> io_result" where
  "finish_reply fate tag0 ready c =
     (let tag = (if tag0 = [] then ''SELECT 0'' else tag0) in
      and_then (send_command_complete fate tag c) (send_ready_for_query fate ready))"

definition relay_rows :: "write_fate \<Rightarrow> rows \<Rightarrow> char \<Rightarrow> conn \<Rightarrow> io_result" where
  "relay_rows fate rs ready c =
     (if 0 < length (r_fields rs) then
        and_then (send_row_description fate (map copy_field (r_fields rs)) c) (\<lambda>c.
        and_then (send_data_rows fate (r_data rs) c) (\<lambda>c.
          case r_err rs of
            Some e \<Rightarrow> Some (Some e, c)
          | None \<Rightarrow> finish_reply fate (r_tag rs) ready c))
      else finish_reply fate (r_tag_open rs) ready c)"

definition execute_and_relay ::
  "'w env \<Rightarrow> backend \<Rightarrow> bytes \<Rightarrow> char \<Rightarrow> conn \<Rightarrow> 'w \<Rightarrow> io_result \<times> 'w" where
  "execute_and_relay env pool sql ready c w =
     (case e_query env pool sql w of
        (Inl e, w') \<Rightarrow> (Some (Some e, c), w')
      | (Inr rs, w') \<Rightarrow> (relay_rows (e_fate env) rs ready c, w'))"

section \<open>The session\<close>

record session =
  in_transaction :: bool
  tx_failed :: bool

definition new_session :: session where
  "new_session = \<lparr>in_transaction = False, tx_failed = False\<rparr>"

text \<open>The switch on the query's class: the session after it and the pool to use.\<close>

definition route :: "(nat \<Rightarrow> nat) \<Rightarrow> session \<Rightarrow> bytes \<Rightarrow> session \<times> backend" where
  "route up s sql =
     (let qtype = classify_query up sql in
      if qtype = QueryTransaction then
        let upper = first_token sql in
        if upper = ''BEGIN'' \<or> upper = ''START'' \<or> upper = ''begin'' \<or> upper = ''start''
        then (s\<lparr>in_transaction := True, tx_failed := False\<rparr>, Primary)
        else (s\<lparr>in_transaction := False, tx_failed := False\<rparr>, Primary)
      else if in_transaction s then (s, Primary)
      else if qtype = QueryRead then (s, Replica)
      else (s, Primary))"

definition ready_status :: "session \<Rightarrow> char" where
  "ready_status s = (if in_transaction s then CHR ''T'' else CHR ''I'')"

definition note_failure :: "session \<Rightarrow> session" where
  "note_failure s = (if in_transaction s then s\<lparr>tx_failed := True\<rparr> else s)"

text \<open>One \<open>Q\<close> message; \<open>None\<close> would be a panic.\<close>

definition handle_query ::
  "'w env \<Rightarrow> bytes \<Rightarrow> session \<Rightarrow> conn \<Rightarrow> 'w \<Rightarrow> (session \<times> conn \<times> 'w) option" where
  "handle_query env sql s0 c w =
     (let (s, pool) = route (e_upper env) s0 sql;
          ready = ready_status s;
          (r, w') = execute_and_relay env pool sql ready c w in do {
        (err, c) \<leftarrow> r;
        (case err of
           None \<Rightarrow> Some (s, c, w')
         | Some e \<Rightarrow> do {
             (_, c) \<leftarrow> send_error (e_fate env) (err_text e) c;
             let s' = note_failure s;
             let err_status = (if tx_failed s' then CHR ''E'' else ready);
             (_, c) \<leftarrow> send_ready_for_query (e_fate env) err_status c;
             Some (s', c, w') }) })"

definition unsupported_text :: bytes where
  "unsupported_text = ''only simple query protocol is supported by the proxy''"

definition handle_other :: "'w env \<Rightarrow> conn \<Rightarrow> conn option" where
  "handle_other env c = do {
     (_, c) \<leftarrow> send_error (e_fate env) unsupported_text c;
     (_, c) \<leftarrow> send_ready_for_query (e_fate env) CHR ''I'' c;
     Some c }"

section \<open>Sending never panics and reads nothing\<close>

definition sends :: "conn \<Rightarrow> io_result \<Rightarrow> bool" where
  "sends c r \<longleftrightarrow> (\<exists>e c'. r = Some (e, c') \<and> inp c' = inp c \<and> inp_end c' = inp_end c
     \<and> closed c' = closed c)"

lemma sends_write: "sends c (Some (conn_write fate m c))"
  unfolding sends_def by (cases "conn_write fate m c") (metis conn_write_frame snd_conv)

lemma sends_messages [intro!]:
  "sends c (send_parameter_status fate k v c)" "sends c (send_ready_for_query fate st c)"
  "sends c (send_error fate err c)" "sends c (send_command_complete fate tag c)"
  "sends c (send_row_description fate fs c)" "sends c (send_data_row fate vs c)"
  "sends c (send_bytes fate (Some m) c)"
  unfolding send_eqs by (auto simp: send_bytes_def intro: sends_write)

lemma sends_return [intro!]: "sends c (Some (e, c))"
  by (simp add: sends_def)

lemma sends_and_then [intro!]:
  assumes "sends c r" and "\<And>c'. sends c' (f c')"
  shows "sends c (and_then r f)"
proof -
  obtain e c' where r: "r = Some (e, c')" and k: "inp c' = inp c" "inp_end c' = inp_end c"
    "closed c' = closed c"
    using assms(1) by (auto simp: sends_def)
  then show ?thesis
    using assms(2) [of c'] by (cases e) (auto simp: sends_def)
qed

lemma sends_data_rows [intro!]: "sends c (send_data_rows fate rs c)"
  by (induction rs arbitrary: c) auto

lemma sends_finish_reply [intro!]: "sends c (finish_reply fate tag ready c)"
  by (auto simp: finish_reply_def Let_def)

lemma sends_relay_rows [intro!]: "sends c (relay_rows fate rs ready c)"
  unfolding relay_rows_def by (cases "r_err rs") auto

lemma sends_parameters [intro!]: "sends c (send_parameters fate kvs c)"
  by (induction kvs arbitrary: c) auto

lemma sends_auth_ok [intro!]: "sends c (send_auth_ok fate c)"
  unfolding send_auth_ok_def by auto

lemma execute_and_relay_sends:
  "\<exists>e c' w'. execute_and_relay env b sql ready c w = (Some (e, c'), w')
    \<and> inp c' = inp c \<and> inp_end c' = inp_end c \<and> closed c' = closed c"
  using sends_relay_rows [of c "e_fate env" _ ready]
  by (auto simp: execute_and_relay_def sends_def split: prod.split sum.split)

lemma handle_query_total:
  "\<exists>s' c' w'. handle_query env sql s c w = Some (s', c', w')
    \<and> inp c' = inp c \<and> inp_end c' = inp_end c \<and> closed c' = closed c"
proof -
  obtain s1 b where r: "route (e_upper env) s sql = (s1, b)"
    by (cases "route (e_upper env) s sql")
  obtain e c1 w1 where x: "execute_and_relay env b sql (ready_status s1) c w = (Some (e, c1), w1)"
    and k: "inp c1 = inp c" "inp_end c1 = inp_end c" "closed c1 = closed c"
    using execute_and_relay_sends [of env b sql "ready_status s1" c w] by blast
  show ?thesis
    by (cases e) (simp_all add: handle_query_def r x k send_eqs Let_def conn_write_frame split_beta)
qed

lemma handle_other_total:
  "\<exists>c'. handle_other env c = Some c' \<and> inp c' = inp c \<and> inp_end c' = inp_end c \<and> closed c' = closed c"
  by (simp add: handle_other_def send_eqs conn_write_frame split_beta)

lemma handle_query_inp: "handle_query env sql s c w = Some (s', c', w') \<Longrightarrow> inp c' = inp c"
  using handle_query_total [of env sql s c w] by auto

lemma handle_other_inp: "handle_other env c = Some c' \<Longrightarrow> inp c' = inp c"
  using handle_other_total [of env c] by auto

lemma read_shrinks:
  assumes "read_raw_message c False = (Inr m, c')"
  shows "length (inp c') < length (inp c)"
proof -
  have "length (inp c) = length m + length (inp c')"
    by (simp add: read_raw_message_Inr(1) [OF assms])
  then show ?thesis
    using read_raw_message_Inr(2) [OF assms] by linarith
qed

section \<open>The message loop\<close>

text \<open>
  \<open>k\<close> counts the iterations. The loop ends when the context is cancelled, when a read fails
  (at the latest when the client's bytes are used up) or at a Terminate message; every other
  iteration consumes a message.
\<close>

function client_loop ::
  "'w env \<Rightarrow> nat \<Rightarrow> session \<Rightarrow> conn \<Rightarrow> 'w \<Rightarrow> (session \<times> conn \<times> 'w) option" where
  "client_loop env k s c w =
     (if e_cancelled env k then Some (s, c, w)
      else (case read_raw_message c False of
         (Inl e, c) \<Rightarrow> Some (s, c, w)
       | (Inr msg, c) \<Rightarrow>
           if length msg = 0 then client_loop env (k + 1) s c w
           else if msg ! 0 = CHR ''X'' then Some (s, c, w)
           else if msg ! 0 = CHR ''Q'' then
             (case handle_query env (extract_sql msg) s c w of
                None \<Rightarrow> None
              | Some (s, c, w) \<Rightarrow> client_loop env (k + 1) s c w)
           else
             (case handle_other env c of
                None \<Rightarrow> None
              | Some c \<Rightarrow> client_loop env (k + 1) s c w)))"
  by pat_completeness auto

termination
proof (relation "measure (\<lambda>(env, k, s, c, w). length (inp c))", goal_cases)
  case 1
  show ?case by simp
next
  case (2 env k s c w x y b)
  then show ?case
    using read_shrinks [of c b y] by simp
next
  case (3 env k s c w x y b x2 xa ya xb yb)
  then show ?case
    using read_shrinks [of c b y] handle_query_inp [of env "extract_sql b" s y w xa xb yb] by auto
next
  case (4 env k s c w x y b x2)
  then show ?case
    using read_shrinks [of c b y] handle_other_inp [of env y x2] by simp
qed

declare client_loop.simps [simp del]

section \<open>A whole connection\<close>

definition close_conn :: "conn \<Rightarrow> conn" where
  "close_conn c = c\<lparr>closed := True\<rparr>"

definition ssl_request_code :: "32 word" where
  "ssl_request_code = 80877103"

text \<open>From the startup message on; \<open>defer client.Close()\<close> runs on every return.\<close>

definition serve_session :: "'w env \<Rightarrow> bytes \<Rightarrow> conn \<Rightarrow> 'w \<Rightarrow> (conn \<times> 'w) option" where
  "serve_session env startup_msg c w = do {
     (user, database) \<leftarrow> parse_startup_params startup_msg;
     (err, c) \<leftarrow> send_auth_ok (e_fate env) c;
     (case err of
        Some e \<Rightarrow> Some (close_conn c, w)
      | None \<Rightarrow> do {
          (s, c, w) \<leftarrow> client_loop env 0 new_session c w;
          Some (close_conn c, w) }) }"

definition handle_client :: "'w env \<Rightarrow> conn \<Rightarrow> 'w \<Rightarrow> (conn \<times> 'w) option" where
  "handle_client env c w =
     (case read_raw_message c True of
        (Inl e, c) \<Rightarrow> Some (close_conn c, w)
      | (Inr startup_msg, c) \<Rightarrow>
          if length startup_msg = 8 \<and> get_be32 (drop 4 startup_msg) = Some ssl_request_code then
            (case conn_write (e_fate env) ''N'' c of
               (Some e, c) \<Rightarrow> Some (close_conn c, w)
             | (None, c) \<Rightarrow>
                 (case read_raw_message c True of
                    (Inl e, c) \<Rightarrow> Some (close_conn c, w)
                  | (Inr startup_msg, c) \<Rightarrow> serve_session env startup_msg c w))
          else serve_session env startup_msg c w)"

section \<open>Where statements go\<close>

text \<open>The backends a sequence of statements is sent to, from a given session.\<close>

fun backends :: "(nat \<Rightarrow> nat) \<Rightarrow> session \<Rightarrow> bytes list \<Rightarrow> backend list" where
  "backends up s [] = []"
| "backends up s (q # qs) = (let (s', b) = route up s q in b # backends up s' qs)"

definition begin_spellings :: "bytes list" where
  "begin_spellings = [''BEGIN'', ''START'', ''begin'', ''start'']"

lemma route_replica: "snd (route up s sql) = Replica \<longleftrightarrow> classify_query up sql = QueryRead \<and> \<not> in_transaction s"
  by (simp add: route_def Let_def)

lemma route_other:
  "classify_query up sql \<noteq> QueryTransaction \<Longrightarrow> fst (route up s sql) = s"
  by (simp add: route_def Let_def)

lemma route_transaction:
  "classify_query up sql = QueryTransaction \<Longrightarrow>
    route up s sql = (s\<lparr>in_transaction := first_token sql \<in> set begin_spellings, tx_failed := False\<rparr>, Primary)"
  by (auto simp: route_def Let_def begin_spellings_def)

lemma route_in_transaction:
  "in_transaction (fst (route up s sql)) =
    (if classify_query up sql = QueryTransaction then first_token sql \<in> set begin_spellings
     else in_transaction s)"
  by (simp add: route_transaction route_other)

lemma backends_pinned:
  assumes "in_transaction s" and "\<forall>q \<in> set qs. classify_query up q \<noteq> QueryTransaction"
  shows "backends up s qs = replicate (length qs) Primary"
  using assms(2)
proof (induction qs)
  case Nil
  show ?case by simp
next
  case (Cons q qs)
  then have "route up s q = (s, Primary)"
    using assms(1) by (simp add: route_def Let_def)
  with Cons show ?case
    by simp
qed

text \<open>Transaction-control statements: any case of the keyword is classified so, with any
  white space and comments in front.\<close>

lemma classify_transaction_keyword:
  assumes "list_all wf_lead ls" and "\<forall>c \<in> set kw. letter c" and "rest = [] \<or> delim (hd rest)"
    and "map ascii_upper kw \<in> set transaction_keywords"
  shows "classify_query up (render_leads ls @ kw @ rest) = QueryTransaction"
proof -
  have "kw \<noteq> []" and "map ascii_upper kw \<noteq> ''COPY''"
    and "map ascii_upper kw \<notin> set read_keywords"
    using assms(4) by (auto simp: transaction_keywords_def read_keywords_def)
  then show ?thesis
    using classify_leads_keyword [OF assms(1) _ assms(2,3)] assms(4)
    by (simp add: keyword_class_def)
qed

lemma begin_spellings_upper:
  assumes "kw \<in> set begin_spellings"
  shows "\<forall>c \<in> set kw. letter c" "map ascii_upper kw \<in> set transaction_keywords"
  using assms by (auto simp: begin_spellings_def letter_def transaction_keywords_def
      ascii_upper_def rune_upper_def byte_of_eq_iff)

lemma route_begin:
  assumes "kw \<in> set begin_spellings" and "rest = [] \<or> delim (hd rest)"
  shows "route up s (kw @ rest) = (s\<lparr>in_transaction := True, tx_failed := False\<rparr>, Primary)"
proof -
  note kw = begin_spellings_upper [OF assms(1)]
  have "classify_query up (kw @ rest) = QueryTransaction"
    using classify_transaction_keyword [of "[]" kw rest up] kw assms(2) by simp
  moreover have "first_token (kw @ rest) = kw"
    by (rule first_token_keyword [OF kw(1) assms(2)])
  ultimately show ?thesis
    using assms(1) by (simp add: route_transaction)
qed

text \<open>What \<open>firstToken\<close> finds when white space or a comment comes first.\<close>

lemma first_token_lead:
  assumes "list_all wf_lead ls" and "ls \<noteq> []"
  shows "first_token (render_leads ls @ s) \<notin> set begin_spellings"
proof -
  obtain l ls' where ls: "ls = l # ls'"
    using assms(2) by (cases ls) auto
  then obtain c cs where c: "render_leads ls @ s = c # cs" "\<not> letter c"
    using assms(1) by (cases l) (auto simp: letter_def ascii_space_def)
  have "first_token (c # cs) = [] \<or> hd (first_token (c # cs)) = c"
    by (simp add: first_token_eq)
  then show ?thesis
    using c begin_spellings_upper(1) [of "first_token (c # cs)"]
    by (cases "first_token (c # cs)") (auto simp: begin_spellings_def letter_def)
qed

section \<open>Properties of the routing\<close>

text \<open>
  C21. After \<open>BEGIN\<close> or \<open>START\<close>, written in one case at the very start of the text, every
  statement goes to the primary until the next transaction-control statement, reads included,
  whatever the session was before.
\<close>

theorem transaction_pinned_to_primary:
  assumes "kw \<in> set begin_spellings" and "rest = [] \<or> delim (hd rest)"
    and "\<forall>q \<in> set qs. classify_query up q \<noteq> QueryTransaction"
  shows "backends up s ((kw @ rest) # qs) = replicate (length qs + 1) Primary"
  using backends_pinned [OF _ assms(3), of "s\<lparr>in_transaction := True, tx_failed := False\<rparr>"]
  by (simp add: route_begin [OF assms(1,2)])

theorem transaction_pinned_to_primary_witness:
  "backends id new_session [''BEGIN'', ''SELECT 1''] = [Primary, Primary]"
  using transaction_pinned_to_primary [of "''BEGIN''" "[]" "[''SELECT 1'']" id new_session]
    classify_select [of id "''1''"]
  by (simp add: begin_spellings_def)

text \<open>
  C37. A \<open>BEGIN\<close> or \<open>START\<close> that is preceded by white space or a comment, or that is
  written in mixed case, is sent to the primary as transaction control but leaves the session
  outside a transaction: a read that follows goes to the replica.
\<close>

theorem begin_not_tracked:
  assumes "list_all wf_lead ls" and "\<forall>c \<in> set kw. letter c" and "rest = [] \<or> delim (hd rest)"
    and "map ascii_upper kw \<in> {''BEGIN'', ''START''}"
    and "ls \<noteq> [] \<or> kw \<notin> set begin_spellings"
    and "classify_query up q = QueryRead"
  shows "backends up s [render_leads ls @ kw @ rest, q] = [Primary, Replica]"
proof -
  let ?b = "render_leads ls @ kw @ rest"
  have "map ascii_upper kw \<in> set transaction_keywords"
    using assms(4) by (auto simp: transaction_keywords_def)
  then have c: "classify_query up ?b = QueryTransaction"
    by (rule classify_transaction_keyword [OF assms(1,2,3)])
  have "first_token ?b \<notin> set begin_spellings"
    using assms(5) first_token_lead [OF assms(1)] first_token_keyword [OF assms(2,3)]
    by (cases "ls = []") auto
  then have "route up s ?b = (s\<lparr>in_transaction := False, tx_failed := False\<rparr>, Primary)"
    by (simp add: route_transaction [OF c])
  then show ?thesis
    using assms(6) by (simp add: route_def [of _ _ q] Let_def)
qed

theorem begin_not_tracked_witness:
  "backends id new_session [render_leads [Space CHR '' ''] @ ''BEGIN'' @ [], ''SELECT 1''] = [Primary, Replica]"
  using begin_not_tracked [of "[Space CHR '' '']" "''BEGIN''" "[]" id "''SELECT 1''" new_session]
    begin_spellings_upper [of "''BEGIN''"] classify_select [of id "''1''"]
  by (simp add: begin_spellings_def ascii_space_def ascii_upper_def rune_upper_def byte_of_eq_iff)

text \<open>
  Every transaction-control statement but \<open>BEGIN\<close> and \<open>START\<close> ends the pinning, also
  those that leave the transaction open: after \<open>BEGIN\<close> and \<open>SAVEPOINT\<close>, \<open>RELEASE\<close> or
  \<open>ROLLBACK TO\<close>, a read of the same transaction goes to the replica.
\<close>

theorem savepoint_ends_pinning:
  assumes "b \<in> set begin_spellings" and "rest = [] \<or> delim (hd rest)"
    and "list_all wf_lead ls" and "\<forall>c \<in> set kw. letter c" and "rest' = [] \<or> delim (hd rest')"
    and "map ascii_upper kw \<in> {''SAVEPOINT'', ''RELEASE'', ''ROLLBACK''}"
    and "classify_query up q = QueryRead"
  shows "backends up s [b @ rest, render_leads ls @ kw @ rest', q] = [Primary, Primary, Replica]"
proof -
  let ?k = "render_leads ls @ kw @ rest'"
  have "map ascii_upper kw \<in> set transaction_keywords"
    using assms(6) by (auto simp: transaction_keywords_def)
  then have c: "classify_query up ?k = QueryTransaction"
    by (rule classify_transaction_keyword [OF assms(3,4,5)])
  have "kw \<notin> set begin_spellings"
    using assms(6) by (auto simp: begin_spellings_def ascii_upper_def rune_upper_def byte_of_eq_iff)
  then have "first_token ?k \<notin> set begin_spellings"
    using first_token_lead [OF assms(3)] first_token_keyword [OF assms(4,5)]
    by (cases "ls = []") auto
  then show ?thesis
    using assms(7) by (simp add: route_begin [OF assms(1,2)] route_transaction [OF c]
        route_def [of _ _ q] Let_def)
qed

theorem savepoint_ends_pinning_witness:
  "backends id new_session [''BEGIN'' @ [], render_leads [] @ ''SAVEPOINT'' @ '' a'', ''SELECT 1'']
    = [Primary, Primary, Replica]"
proof -
  have "\<forall>c \<in> set ''SAVEPOINT''. letter c"
    by (simp add: letter_def)
  moreover have "map ascii_upper ''SAVEPOINT'' = ''SAVEPOINT''"
    by (simp add: ascii_upper_def rune_upper_def byte_of_eq_iff)
  ultimately show ?thesis
    using savepoint_ends_pinning [of "''BEGIN''" "[]" "[]" "''SAVEPOINT''" "'' a''" id "''SELECT 1''" new_session]
      classify_select [of id "''1''"]
    by (simp add: begin_spellings_def is_delim_def)
qed

lemma classify_semicolon:
  assumes "list_all wf_lead ls" and "kw \<noteq> []" and "\<forall>c \<in> set kw. letter c"
    and "rest = [] \<or> delim (hd rest)"
  shows "classify_query up (render_leads ls @ kw @ '';'' @ rest) = QueryWrite"
proof -
  obtain rest' t where
    1: "trim_space (strip_leading_comments (trim_space (render_leads ls @ kw @ '';'' @ rest))) = kw @ rest'"
    and 2: "'';'' @ rest = rest' @ t" "\<forall>z \<in> set t. \<not> solid z"
    using classified_keyword [OF assms(1,2,3)] by blast
  have "solid CHR '';''"
    by (simp add: solid_def ascii_space_def)
  with 2 obtain r where r: "rest' = CHR '';'' # r" and r2: "rest = r @ t"
    by (cases rest') auto
  have "r = [] \<or> delim (hd r)"
    by (rule delim_prefix [OF r2 assms(4)])
  moreover have "\<not> delim CHR '';''"
    by (simp add: is_delim_def)
  ultimately have tok: "first_token (kw @ rest') = kw @ '';''"
    using assms(3) letter_not_delim
    by (cases r) (auto simp: r first_token_eq takeWhile_append2 takeWhile_eq_all_conv)
  have "to_upper up (kw @ '';'') = map ascii_upper kw @ '';''"
    using assms(3) by (subst to_upper_append)
      (auto simp: all_ascii_def letter_ascii ascii_upper_def rune_upper_def byte_of_eq_iff)
  moreover have "map ascii_upper kw @ '';'' \<noteq> w" if "CHR '';'' \<notin> set w" for w
    using that by auto
  ultimately show ?thesis
    using assms(2) unfolding classify_query_def 1 Let_def tok by simp
qed

text \<open>
  A keyword directly followed by a semicolon is no keyword for the classifier: \<open>BEGIN;\<close>
  is an ordinary write that opens no transaction in the session (the next read goes to the
  replica), and after \<open>BEGIN\<close> a \<open>COMMIT;\<close> does not close it (the next read is still
  pinned).
\<close>

theorem semicolon_hides_keyword:
  assumes "list_all wf_lead ls" and "kw \<noteq> []" and "\<forall>c \<in> set kw. letter c"
    and "rest = [] \<or> delim (hd rest)" and "classify_query up q = QueryRead"
  shows "backends up s [render_leads ls @ kw @ '';'' @ rest, q] =
    [Primary, if in_transaction s then Primary else Replica]"
  using classify_semicolon [OF assms(1-4), of up] assms(5)
  by (simp add: route_def Let_def)

theorem semicolon_hides_keyword_witness:
  "backends id new_session [render_leads [] @ ''BEGIN'' @ '';'' @ [], ''SELECT 1''] = [Primary, Replica]"
  using semicolon_hides_keyword [of "[]" "''BEGIN''" "[]" id "''SELECT 1''" new_session]
    begin_spellings_upper(1) [of "''BEGIN''"] classify_select [of id "''1''"]
  by (simp add: begin_spellings_def new_session_def)

end
