(* ===== verification/Proxy_Loop.thy ===== *)
theory Proxy_Loop
  imports Proxy
begin

text \<open>
  What a connection of \<open>internal/proxy/proxy.go\<close> does as a whole: the reply to a query as a list of
  messages, the message loop of \<open>handleClient\<close> against the routing, and the handshake before it.
\<close>

section \<open>Replies\<close>

text \<open>A reply as the list of its messages: type byte and payload.\<close>

abbreviation wire :: "(char \<times> bytes) list \<Rightarrow> bytes" where
  "wire ms \<equiv> concat (map (\<lambda>(t, p). frame t p) ms)"

definition error_payload :: "bytes \<Rightarrow> bytes" where
  "error_payload err = ''S'' @ ''ERROR'' @ [NUL] @ ''M'' @ err @ [NUL, NUL]"

definition rows_messages :: "rows \<Rightarrow> (char \<times> bytes) list" where
  "rows_messages rs =
     (CHR ''T'', be16 (word_of_nat (length (r_fields rs))) @ concat (map enc_field (r_fields rs)))
     # map (\<lambda>vs. (CHR ''D'', be16 (word_of_nat (length vs)) @ concat (map enc_column vs))) (r_data rs)"

definition finish_messages :: "bytes \<Rightarrow> char \<Rightarrow> (char \<times> bytes) list" where
  "finish_messages tag ready =
     [(CHR ''C'', (if tag = [] then ''SELECT 0'' else tag) @ [NUL]), (CHR ''Z'', [ready])]"

text \<open>The messages of a reply to a query when every write goes through, and the error the
  relaying ends with.\<close>

definition relay_messages :: "rows \<Rightarrow> char \<Rightarrow> (char \<times> bytes) list" where
  "relay_messages rs ready =
     (if r_fields rs = [] then finish_messages (r_tag_open rs) ready
      else rows_messages rs @
        (case r_err rs of None \<Rightarrow> finish_messages (r_tag rs) ready | Some e \<Rightarrow> []))"

definition relay_error :: "rows \<Rightarrow> gerr option" where
  "relay_error rs = (if r_fields rs = [] then None else r_err rs)"

lemma copy_field_id [simp]: "copy_field f = f"
  by (simp add: copy_field_def)

lemma map_copy_field [simp]: "map copy_field fs = fs"
  by (induction fs) simp_all

abbreviation all_ok :: write_fate where
  "all_ok \<equiv> (\<lambda>_. None)"

text \<open>A send that returned \<open>e\<close> after writing exactly these bytes.\<close>

definition sent :: "conn \<Rightarrow> bytes \<Rightarrow> gerr option \<Rightarrow> io_result \<Rightarrow> bool" where
  "sent c b e r \<longleftrightarrow> (\<exists>n. r = Some (e, c\<lparr>out := out c @ b, writes := n\<rparr>))"

lemma sent_write: "sent c m None (Some (conn_write all_ok m c))"
  by (auto simp: sent_def)

lemma sent_messages:
  "sent c (frame CHR ''Z'' [st]) None (send_ready_for_query all_ok st c)"
  "sent c (frame CHR ''E'' (error_payload err)) None (send_error all_ok err c)"
  "sent c (frame CHR ''C'' (tag @ [NUL])) None (send_command_complete all_ok tag c)"
  "sent c (frame CHR ''T'' (be16 (word_of_nat (length fs)) @ concat (map enc_field fs))) None
     (send_row_description all_ok fs c)"
  "sent c (frame CHR ''D'' (be16 (word_of_nat (length vs)) @ concat (map enc_column vs))) None
     (send_data_row all_ok vs c)"
  "sent c m None (send_bytes all_ok (Some m) c)"
  unfolding send_eqs error_payload_def sent_def by (auto simp: send_bytes_def)

lemma sent_return: "sent c [] e (Some (e, c))"
  unfolding sent_def by (rule exI [of _ "writes c"]) simp

lemma sent_and_then:
  assumes "sent c b None r" and "\<And>c'. sent c' b' e (f c')"
  shows "sent c (b @ b') e (and_then r f)"
proof -
  obtain n where "r = Some (None, c\<lparr>out := out c @ b, writes := n\<rparr>)"
    using assms(1) by (auto simp: sent_def)
  then show ?thesis
    using assms(2) [of "c\<lparr>out := out c @ b, writes := n\<rparr>"] by (auto simp: sent_def)
qed

lemma sent_data_rows:
  "sent c (wire (map (\<lambda>vs. (CHR ''D'', be16 (word_of_nat (length vs)) @ concat (map enc_column vs))) rs))
    None (send_data_rows all_ok rs c)"
proof (induction rs arbitrary: c)
  case Nil
  show ?case by (simp add: sent_return)
next
  case (Cons r rs)
  show ?case
    using sent_and_then [OF sent_messages(5) Cons.IH, of c r] by simp
qed

lemma sent_finish: "sent c (wire (finish_messages tag ready)) None (finish_reply all_ok tag ready c)"
  using sent_and_then [OF sent_messages(3,1), of c "if tag = [] then ''SELECT 0'' else tag" ready]
  by (simp add: finish_reply_def finish_messages_def Let_def)

lemma sent_relay: "sent c (wire (relay_messages rs ready)) (relay_error rs) (relay_rows all_ok rs ready c)"
proof (cases "r_fields rs = []")
  case True
  then show ?thesis
    using sent_finish by (simp add: relay_rows_def relay_messages_def relay_error_def)
next
  case False
  let ?fin = "case r_err rs of None \<Rightarrow> wire (finish_messages (r_tag rs) ready) | Some e \<Rightarrow> []"
  have "sent c' ?fin (r_err rs) (case r_err rs of Some e \<Rightarrow> Some (Some e, c')
      | None \<Rightarrow> finish_reply all_ok (r_tag rs) ready c')" for c'
    by (cases "r_err rs") (simp_all add: sent_finish sent_return)
  from sent_and_then [OF sent_messages(4) sent_and_then [OF sent_data_rows this], of c "r_fields rs"]
  show ?thesis
    using False by (cases "r_err rs")
      (simp_all add: relay_rows_def relay_messages_def rows_messages_def relay_error_def)
qed

text \<open>The messages of the whole reply to one query, and the session after it.\<close>

definition query_reply :: "'w env \<Rightarrow> bytes \<Rightarrow> session \<Rightarrow> 'w \<Rightarrow> (char \<times> bytes) list \<times> session \<times> 'w" where
  "query_reply env sql s0 w =
     (let (s, b) = route (e_upper env) s0 sql;
          failed = (\<lambda>e. [(CHR ''E'', error_payload (err_text e)),
            (CHR ''Z'', [if tx_failed (note_failure s) then CHR ''E'' else ready_status s])]) in
      case e_query env b sql w of
        (Inl e, w') \<Rightarrow> (failed e, note_failure s, w')
      | (Inr rs, w') \<Rightarrow>
          (case relay_error rs of
             None \<Rightarrow> (relay_messages rs (ready_status s), s, w')
           | Some e \<Rightarrow> (relay_messages rs (ready_status s) @ failed e, note_failure s, w')))"

lemma sent_failed:
  assumes "e_fate env = all_ok"
  shows "\<exists>n. (do { (_, c) \<leftarrow> send_error (e_fate env) msg c;
      (_, c) \<leftarrow> send_ready_for_query (e_fate env) st c; Some (s', c, w') })
    = Some (s', c\<lparr>out := out c @ wire [(CHR ''E'', error_payload msg), (CHR ''Z'', [st])], writes := n\<rparr>, w')"
  by (rule exI [of _ "writes c + 2"]) (simp add: assms send_eqs error_payload_def)

lemma handle_query_reply:
  assumes "e_fate env = all_ok" and "query_reply env sql s w = (ms, s', w')"
  shows "\<exists>n. handle_query env sql s c w = Some (s', c\<lparr>out := out c @ wire ms, writes := n\<rparr>, w')"
proof -
  obtain s1 b where r: "route (e_upper env) s sql = (s1, b)"
    by (cases "route (e_upper env) s sql")
  obtain q w1 where q: "e_query env b sql w = (q, w1)"
    by (cases "e_query env b sql w")
  note defs = handle_query_def query_reply_def r q execute_and_relay_def Let_def
  show ?thesis
  proof (cases q)
    case (Inl e)
    then show ?thesis
      using assms sent_failed [OF assms(1)] by (auto simp: defs)
  next
    case (Inr rs)
    obtain n where n: "relay_rows all_ok rs (ready_status s1) c =
        Some (relay_error rs, c\<lparr>out := out c @ wire (relay_messages rs (ready_status s1)), writes := n\<rparr>)"
      using sent_relay [of c rs "ready_status s1"] unfolding sent_def by blast
    show ?thesis
      using assms n Inr by (cases "relay_error rs") (auto simp: defs send_eqs error_payload_def)
  qed
qed

text \<open>The session invariant: only a transaction can have failed.\<close>

definition session_ok :: "session \<Rightarrow> bool" where
  "session_ok s \<longleftrightarrow> (tx_failed s \<longrightarrow> in_transaction s)"

lemma session_ok_new [intro]: "session_ok new_session"
  by (simp add: session_ok_def new_session_def)

lemma session_ok_route: "session_ok s \<Longrightarrow> session_ok (fst (route up s sql))"
  by (auto simp: session_ok_def route_def Let_def)

lemma session_ok_note: "session_ok s \<Longrightarrow> session_ok (note_failure s)"
  by (auto simp: session_ok_def note_failure_def)

lemma note_failure_simps [simp]:
  "in_transaction (note_failure s) = in_transaction s"
  "session_ok s \<Longrightarrow> tx_failed (note_failure s) = in_transaction s"
  by (auto simp: note_failure_def session_ok_def)

text \<open>What the last byte of a reply has to be: idle, failed when this very reply has an error in a
  transaction, or an open transaction.\<close>

definition status_byte :: "bool \<Rightarrow> (char \<times> bytes) list \<Rightarrow> char" where
  "status_byte in_tx ms = (if \<not> in_tx then CHR ''I'' else if CHR ''E'' \<in> fst ` set ms then CHR ''E'' else CHR ''T'')"

lemma status_byte_ready: "CHR ''E'' \<notin> fst ` set ms \<Longrightarrow> status_byte (in_transaction s) ms = ready_status s"
  by (simp add: status_byte_def ready_status_def)

lemma status_byte_failed:
  "session_ok s \<Longrightarrow> CHR ''E'' \<in> fst ` set ms \<Longrightarrow>
    status_byte (in_transaction s) ms = (if tx_failed (note_failure s) then CHR ''E'' else ready_status s)"
  by (simp add: status_byte_def ready_status_def)

lemma relay_messages_shape:
  assumes "relay_error rs = None"
  shows "\<exists>ms. relay_messages rs ready = ms @ [(CHR ''Z'', [ready])] \<and> CHR ''Z'' \<notin> fst ` set ms
    \<and> CHR ''E'' \<notin> fst ` set ms"
proof (cases "r_fields rs = []")
  case True
  then show ?thesis
    by (intro exI [of _ "[(CHR ''C'', (if r_tag_open rs = [] then ''SELECT 0'' else r_tag_open rs) @ [NUL])]"])
      (simp add: relay_messages_def finish_messages_def)
next
  case False
  then show ?thesis
    using assms
    by (intro exI [of _ "rows_messages rs @ [(CHR ''C'', (if r_tag rs = [] then ''SELECT 0'' else r_tag rs) @ [NUL])]"])
      (auto simp: relay_messages_def finish_messages_def rows_messages_def relay_error_def)
qed

lemma relay_messages_no_ready:
  "relay_error rs = Some e \<Longrightarrow> CHR ''Z'' \<notin> fst ` set (relay_messages rs ready)"
  by (auto simp: relay_error_def relay_messages_def rows_messages_def split: if_splits)

text \<open>Whether a query fails: it is refused, or its rows end with an error.\<close>

definition query_fails :: "'w env \<Rightarrow> backend \<Rightarrow> bytes \<Rightarrow> 'w \<Rightarrow> bool" where
  "query_fails env b sql w = (case fst (e_query env b sql w) of Inl e \<Rightarrow> True | Inr rs \<Rightarrow> relay_error rs \<noteq> None)"

lemma query_reply_shape:
  assumes "session_ok s" and "query_reply env sql s w = (ms, s', w')" and "route (e_upper env) s sql = (s1, b)"
  shows "\<exists>ms'. ms = ms' @ [(CHR ''Z'', [status_byte (in_transaction s1) ms'])] \<and> CHR ''Z'' \<notin> fst ` set ms'
    \<and> (CHR ''E'' \<in> fst ` set ms' \<longleftrightarrow> query_fails env b sql w)
    \<and> s' = (if query_fails env b sql w then note_failure s1 else s1) \<and> session_ok s'"
proof -
  have ok: "session_ok s1"
    using session_ok_route [OF assms(1), of "e_upper env" sql] assms(3) by simp
  obtain q w1 where q: "e_query env b sql w = (q, w1)"
    by (cases "e_query env b sql w")
  let ?st = "if tx_failed (note_failure s1) then CHR ''E'' else ready_status s1"
  have failed: ?thesis
    if "ms = ps @ [(CHR ''E'', error_payload m), (CHR ''Z'', [?st])]" "s' = note_failure s1"
      "CHR ''Z'' \<notin> fst ` set ps" "query_fails env b sql w" for ps m
    using that status_byte_failed [OF ok, of "ps @ [(CHR ''E'', error_payload m)]"] session_ok_note [OF ok]
    by (intro exI [of _ "ps @ [(CHR ''E'', error_payload m)]"]) simp
  show ?thesis
  proof (cases q)
    case (Inl e)
    show ?thesis
      by (rule failed [of "[]" "err_text e"])
        (use assms(2) Inl in \<open>auto simp: query_reply_def query_fails_def assms(3) q Let_def\<close>)
  next
    case (Inr rs)
    show ?thesis
    proof (cases "relay_error rs")
      case None
      then have "ms = relay_messages rs (ready_status s1)" and "s' = s1" and "\<not> query_fails env b sql w"
        using assms(2) Inr by (auto simp: query_reply_def query_fails_def assms(3) q Let_def)
      with relay_messages_shape [OF None, of "ready_status s1"] status_byte_ready [of _ s1] ok
      show ?thesis
        by fastforce
    next
      case (Some e)
      show ?thesis
        by (rule failed [of "relay_messages rs (ready_status s1)" "err_text e"])
          (use assms(2) Inr Some relay_messages_no_ready [OF Some, of "ready_status s1"]
            in \<open>auto simp: query_reply_def query_fails_def assms(3) q Let_def\<close>)
    qed
  qed
qed

section \<open>Properties of the replies\<close>


definition demo_env :: "(gerr + rows) \<Rightarrow> (backend \<times> bytes) list env" where
  "demo_env r = \<lparr>e_upper = id, e_query = (\<lambda>b sql w. (r, w @ [(b, sql)])), e_cancelled = (\<lambda>_. False),
     e_fate = (\<lambda>_. None)\<rparr>"


text \<open>
  The status of a failed transaction is only sent once: \<open>readyStatus\<close> is made without \<open>txFailed\<close>, so
  after an error in a transaction the next statement that succeeds is answered with the status of a
  transaction that is fine, while the session still counts it as failed.
\<close>

theorem failed_status_forgotten:
  assumes "e_fate env = (\<lambda>_. None)" and "in_transaction s" and "tx_failed s"
    and "classify_query (e_upper env) sql \<noteq> QueryTransaction"
    and "e_query env Primary sql w = (Inr rs, w')" and "relay_error rs = None"
  shows "\<exists>ms n. handle_query env sql s c w
      = Some (s, c\<lparr>out := out c @ wire (ms @ [(CHR ''Z'', ''T'')]), writes := n\<rparr>, w')"
proof -
  have route: "route (e_upper env) s sql = (s, Primary)"
    using assms(2,4) by (simp add: route_def Let_def)
  obtain ms where "relay_messages rs CHR ''T'' = ms @ [(CHR ''Z'', ''T'')]"
    using relay_messages_shape [OF assms(6)] by blast
  then have "query_reply env sql s w = (ms @ [(CHR ''Z'', ''T'')], s, w')"
    using assms(2,5,6) by (simp add: query_reply_def route ready_status_def Let_def)
  from handle_query_reply [OF assms(1) this, of c] show ?thesis by blast
qed

theorem failed_status_forgotten_witness:
  "\<exists>c' w'. handle_query (demo_env (Inr \<lparr>r_fields = [], r_data = [], r_err = None, r_tag_open = [], r_tag = []\<rparr>)) ''SELECT 1''
      \<lparr>in_transaction = True, tx_failed = True\<rparr> \<lparr>inp = [], inp_end = EOF, out = [], writes = 0, closed = False\<rparr> []
    = Some (\<lparr>in_transaction = True, tx_failed = True\<rparr>, c', w')"
proof -
  let ?rs = "\<lparr>r_fields = [], r_data = [], r_err = None, r_tag_open = [], r_tag = []\<rparr>"
  let ?env = "demo_env (Inr ?rs)"
  have env: "e_fate ?env = (\<lambda>_. None)" "e_query ?env Primary ''SELECT 1'' [] = (Inr ?rs, [(Primary, ''SELECT 1'')])"
    by (simp_all add: demo_env_def)
  have "classify_query (e_upper ?env) ''SELECT 1'' \<noteq> QueryTransaction" and "relay_error ?rs = None"
    using classify_select [of id "''1''"] by (simp_all add: demo_env_def relay_error_def)
  from failed_status_forgotten [OF env(1) _ _ this(1) env(2) this(2), of "\<lparr>in_transaction = True, tx_failed = True\<rparr>"
      "\<lparr>inp = [], inp_end = EOF, out = [], writes = 0, closed = False\<rparr>"]
  show ?thesis by auto
qed

text \<open>
  C38. The error of a statement without a result set is lost: if the rows have no columns and
  no command tag is available before they are closed (what pgx documents), the client is told
  \<open>SELECT 0\<close> and the session goes on, whatever error \<open>Err()\<close> would report and whatever
  the statement's own tag is.
\<close>

theorem fieldless_error_swallowed:
  assumes "e_fate env = (\<lambda>_. None)" and "route (e_upper env) s sql = (s', b)"
    and "e_query env b sql w = (Inr rs, w')" and "r_fields rs = []" and "r_tag_open rs = []"
  shows "\<exists>n. handle_query env sql s c w =
    Some (s', c\<lparr>out := out c @ frame CHR ''C'' (''SELECT 0'' @ [NUL])
                  @ frame CHR ''Z'' [ready_status s'], writes := n\<rparr>, w')"
proof -
  have "query_reply env sql s w =
      ([(CHR ''C'', ''SELECT 0'' @ [NUL]), (CHR ''Z'', [ready_status s'])], s', w')"
    using assms(2-5) by (simp add: query_reply_def relay_error_def relay_messages_def finish_messages_def)
  from handle_query_reply [OF assms(1) this, of c] show ?thesis
    by simp
qed

theorem fieldless_error_swallowed_witness:
  "\<exists>n. handle_query (demo_env (Inr \<lparr>r_fields = [], r_data = [], r_err = Some (ErrMsg ''duplicate key''),
      r_tag_open = [], r_tag = []\<rparr>)) ''SELECT 1'' new_session
      \<lparr>inp = [], inp_end = EOF, out = [], writes = 0, closed = False\<rparr> [] =
    Some (new_session, \<lparr>inp = [], inp_end = EOF, out = frame CHR ''C'' (''SELECT 0'' @ [NUL]) @ frame CHR ''Z'' ''I'',
      writes = n, closed = False\<rparr>, [(Replica, ''SELECT 1'')])"
proof -
  have "route id new_session ''SELECT 1'' = (new_session, Replica)"
    using classify_select [of id "''1''"] by (simp add: route_def new_session_def)
  then show ?thesis
    using fieldless_error_swallowed [of "demo_env (Inr \<lparr>r_fields = [], r_data = [],
        r_err = Some (ErrMsg ''duplicate key''), r_tag_open = [], r_tag = []\<rparr>)" new_session "''SELECT 1''"
        new_session Replica "[]" _ _ "\<lparr>inp = [], inp_end = EOF, out = [], writes = 0, closed = False\<rparr>"]
    by (simp add: demo_env_def ready_status_def new_session_def)
qed

section \<open>The loop against the routing\<close>

text \<open>An environment whose queries are logged, in the order in which they are made.\<close>

definition log_env :: "'w env \<Rightarrow> ('w \<times> (backend \<times> bytes) list) env" where
  "log_env env = \<lparr>e_upper = e_upper env,
     e_query = (\<lambda>b sql (w, l). let (r, w') = e_query env b sql w in (r, (w', l @ [(b, sql)]))),
     e_cancelled = e_cancelled env, e_fate = e_fate env\<rparr>"

definition query_message :: "bytes \<Rightarrow> bytes" where
  "query_message sql = frame CHR ''Q'' (sql @ [NUL])"

lemma log_env_simps [simp]:
  "e_upper (log_env env) = e_upper env" "e_cancelled (log_env env) = e_cancelled env"
  "e_fate (log_env env) = e_fate env"
  by (simp_all add: log_env_def)

lemma handle_query_log:
  "\<exists>s' c' w'. handle_query (log_env env) sql s c (w, l) =
      Some (s', c', (w', l @ [(snd (route (e_upper env) s sql), sql)]))
    \<and> in_transaction s' = in_transaction (fst (route (e_upper env) s sql)) \<and> inp c' = inp c"
proof -
  obtain s1 b where r: "route (e_upper env) s sql = (s1, b)"
    by (cases "route (e_upper env) s sql")
  obtain q w1 where q: "e_query env b sql w = (q, w1)"
    by (cases "e_query env b sql w")
  have "\<exists>e c1. execute_and_relay (log_env env) b sql (ready_status s1) c (w, l)
      = (Some (e, c1), (w1, l @ [(b, sql)])) \<and> inp c1 = inp c"
  proof (cases q)
    case (Inl e)
    then show ?thesis
      by (simp add: execute_and_relay_def log_env_def q)
  next
    case (Inr rs)
    obtain e c1 where "relay_rows (e_fate env) rs (ready_status s1) c = Some (e, c1)" "inp c1 = inp c"
      using sends_relay_rows [of c "e_fate env" rs "ready_status s1"] unfolding sends_def by blast
    with Inr show ?thesis
      by (simp add: execute_and_relay_def log_env_def q)
  qed
  then obtain e c1 where x: "execute_and_relay (log_env env) b sql (ready_status s1) c (w, l)
      = (Some (e, c1), (w1, l @ [(b, sql)]))" and i: "inp c1 = inp c"
    by blast
  show ?thesis
    by (cases e) (simp_all add: handle_query_def r x i send_eqs conn_write_frame split_beta Let_def)
qed

text \<open>Only the transaction flag decides where statements go.\<close>

lemma route_cong:
  assumes "in_transaction s = in_transaction s'"
  shows "snd (route up s sql) = snd (route up s' sql)"
    and "in_transaction (fst (route up s sql)) = in_transaction (fst (route up s' sql))"
  using assms by (simp_all add: route_in_transaction) (simp add: route_def Let_def)

lemma backends_Cons:
  "backends up s (q # qs) = snd (route up s q) # backends up (fst (route up s q)) qs"
  by (simp add: split_beta)

lemma backends_cong:
  "in_transaction s = in_transaction s' \<Longrightarrow> backends up s qs = backends up s' qs"
proof (induction qs arbitrary: s s')
  case Nil
  show ?case by simp
next
  case (Cons q qs)
  show ?case
    unfolding backends_Cons route_cong(1) [OF Cons.prems]
    by (simp only: Cons.IH [OF route_cong(2) [OF Cons.prems]])
qed

lemma client_loop_step:
  assumes "\<not> e_cancelled env k" and "inp c = query_message sql @ rest"
    and "NUL \<notin> set sql" and "length sql + 5 < 2 ^ 32"
  shows "client_loop env k s c w =
    (case handle_query env sql s (c\<lparr>inp := rest\<rparr>) w of
       None \<Rightarrow> None | Some (s, c, w) \<Rightarrow> client_loop env (k + 1) s c w)"
proof -
  have "read_raw_message c False = (Inr (query_message sql), c\<lparr>inp := rest\<rparr>)"
    unfolding query_message_def
    by (rule read_raw_message_frame) (use assms(2,4) in \<open>simp_all add: query_message_def\<close>)
  moreover have "extract_sql (query_message sql) = sql"
    using extract_sql_frames(1) [OF assms(3), of "[]"] by (simp add: query_message_def)
  moreover have "query_message sql ! 0 = CHR ''Q''" and "query_message sql \<noteq> []"
    by (simp_all add: query_message_def frame_def)
  ultimately show ?thesis
    using assms(1) by (subst client_loop.simps) simp
qed

lemma client_loop_end:
  "inp c = [] \<Longrightarrow> client_loop env k s c w = Some (s, c\<lparr>inp := []\<rparr>, w)"
  by (subst client_loop.simps) (auto simp: read_raw_message_def read_full_def)

lemma client_loop_queries:
  assumes "\<forall>k. \<not> e_cancelled env k" and "inp c = concat (map query_message qs)"
    and "\<forall>q \<in> set qs. NUL \<notin> set q \<and> length q + 5 < 2 ^ 32"
  shows "\<exists>s' c' w'. client_loop (log_env env) k s c (w, l) =
    Some (s', c', (w', l @ zip (backends (e_upper env) s qs) qs))"
  using assms(2,3)
proof (induction qs arbitrary: k s c w l)
  case Nil
  then show ?case
    by (simp add: client_loop_end)
next
  case (Cons q qs)
  let ?c = "c\<lparr>inp := concat (map query_message qs)\<rparr>"
  obtain s1 c1 w1 where h: "handle_query (log_env env) q s ?c (w, l) =
      Some (s1, c1, (w1, l @ [(snd (route (e_upper env) s q), q)]))"
    and t: "in_transaction s1 = in_transaction (fst (route (e_upper env) s q))"
    and i: "inp c1 = concat (map query_message qs)"
    using handle_query_log [of env q s ?c w l] by auto
  have "client_loop (log_env env) k s c (w, l) =
      client_loop (log_env env) (k + 1) s1 c1 (w1, l @ [(snd (route (e_upper env) s q), q)])"
    using client_loop_step [of "log_env env" k c q "concat (map query_message qs)" s "(w, l)"]
      Cons.prems assms(1) h by simp
  moreover have "backends (e_upper env) s1 qs = backends (e_upper env) (fst (route (e_upper env) s q)) qs"
    by (rule backends_cong [OF t])
  ultimately show ?case
    using Cons.IH [OF i, of "k + 1" s1 w1 "l @ [(snd (route (e_upper env) s q), q)]"] Cons.prems(2)
    by (simp add: backends_Cons del: backends.simps)
qed

section \<open>Properties of a connection\<close>

text \<open>
  C1. The byte-level loop refines the routing: for any stream of simple queries, any answers of
  the backends and any fate of the writes, the loop executes exactly the client's statements,
  each once and in order, on the backends that \<open>route\<close> gives, and ends when the client
  closes.
\<close>

theorem client_loop_refines_routing:
  assumes "\<forall>k. \<not> e_cancelled env k" and "inp c = concat (map query_message qs)"
    and "\<forall>q \<in> set qs. NUL \<notin> set q \<and> length q + 5 < 2 ^ 32"
  shows "\<exists>s' c' w'. client_loop (log_env env) k s c (w, []) =
    Some (s', c', (w', zip (backends (e_upper env) s qs) qs))"
  using client_loop_queries [OF assms, of k s w "[]"] by simp

theorem client_loop_refines_routing_witness:
  "\<exists>s' c' w'. client_loop (log_env (demo_env (Inl EOF))) 0 new_session
      \<lparr>inp = query_message ''SELECT 1'' @ query_message ''SELECT 2'', inp_end = EOF, out = [],
        writes = 0, closed = False\<rparr> ([], [])
    = Some (s', c', (w', [(Replica, ''SELECT 1''), (Replica, ''SELECT 2'')]))"
proof -
  have "backends id new_session [''SELECT 1'', ''SELECT 2''] = [Replica, Replica]"
    using classify_select [of id "''1''"] classify_select [of id "''2''"]
    by (simp add: route_def new_session_def)
  then show ?thesis
    using client_loop_refines_routing [of "demo_env (Inl EOF)" "\<lparr>inp = query_message ''SELECT 1'' @
        query_message ''SELECT 2'', inp_end = EOF, out = [], writes = 0, closed = False\<rparr>"
        "[''SELECT 1'', ''SELECT 2'']" 0 new_session "[]"]
    by (simp add: demo_env_def)
qed

lemma client_loop_total:
  "\<exists>s' c' w'. client_loop env k s c w = Some (s', c', w')"
proof (induction env k s c w rule: client_loop.induct)
  case (1 env k s c w)
  show ?case
  proof (cases "e_cancelled env k")
    case True
    then show ?thesis
      by (subst client_loop.simps) simp
  next
    case live: False
    obtain r c1 where r: "read_raw_message c False = (r, c1)"
      by (cases "read_raw_message c False")
    show ?thesis
    proof (cases r)
      case (Inl e)
      with live r show ?thesis
        by (subst client_loop.simps) simp
    next
      case (Inr msg)
      have "5 \<le> length msg"
        using read_raw_message_Inr(2) [of c msg c1] r Inr by simp
      then have ne: "length msg \<noteq> 0"
        by linarith
      obtain s2 c2 w2 where q: "handle_query env (extract_sql msg) s c1 w = Some (s2, c2, w2)"
        using handle_query_total [of env "extract_sql msg" s c1 w] by blast
      obtain c3 where o: "handle_other env c1 = Some c3"
        using handle_other_total [of env c1] by blast
      consider "msg ! 0 = CHR ''X''" | "msg ! 0 = CHR ''Q''" | "msg ! 0 \<noteq> CHR ''X''" "msg ! 0 \<noteq> CHR ''Q''"
        by blast
      then show ?thesis
      proof cases
        case 1
        with live r Inr ne show ?thesis
          by (subst client_loop.simps) simp
      next
        case 2
        with "1.IH"(2) [OF live r [symmetric] Inr ne _ 2 q] live r Inr ne q show ?thesis
          by (subst client_loop.simps) simp
      next
        case 3
        with "1.IH"(3) [OF live r [symmetric] Inr ne 3 o] live r Inr ne o show ?thesis
          by (subst client_loop.simps) simp
      qed
    qed
  qed
qed

text \<open>
  C40. Once the startup message is parsed a connection cannot panic: on every input, with every
  answer of the backends and every fate of the writes, the message loop returns.
\<close>

theorem client_loop_never_panics:
  "client_loop env k s c w \<noteq> None"
  using client_loop_total [of env k s c w] by auto

lemma serve_session_None:
  "serve_session env m c w = None \<longleftrightarrow> parse_startup_params m = None"
proof (cases "parse_startup_params m")
  case None
  then show ?thesis
    by (simp add: serve_session_def)
next
  case (Some ud)
  obtain e c1 where a: "send_auth_ok (e_fate env) c = Some (e, c1)"
    using sends_auth_ok [of c "e_fate env"] unfolding sends_def by blast
  obtain s2 c2 w2 where "client_loop env 0 new_session c1 w = Some (s2, c2, w2)"
    using client_loop_total [of env 0 new_session c1 w] by blast
  with Some a show ?thesis
    by (cases ud; cases e) (simp_all add: serve_session_def)
qed

section \<open>The handshake\<close>

definition ssl_request :: bytes where
  "ssl_request = startup_message (be32 ssl_request_code)"

text \<open>What a client is sent between its startup message and its first query.\<close>

definition handshake_messages :: "(char \<times> bytes) list" where
  "handshake_messages =
     [(CHR ''R'', be32 0)]
     @ map (\<lambda>(k, v). (CHR ''S'', k @ [NUL] @ v @ [NUL])) auth_parameters
     @ [(CHR ''K'', be32 1 @ be32 1), (CHR ''Z'', ''I'')]"

lemma sent_parameters:
  "sent c (wire (map (\<lambda>(k, v). (CHR ''S'', k @ [NUL] @ v @ [NUL])) kvs)) None (send_parameters all_ok kvs c)"
proof (induction kvs arbitrary: c)
  case Nil
  show ?case by (simp add: sent_return)
next
  case (Cons kv kvs)
  obtain k v where kv: "kv = (k, v)"
    by (cases kv)
  have "sent c (frame CHR ''S'' (k @ [NUL] @ v @ [NUL])) None (send_parameter_status all_ok k v c)"
    by (auto simp: sent_def send_eqs)
  from sent_and_then [OF this Cons.IH] show ?case
    by (simp add: kv)
qed

lemma sent_auth_ok: "sent c (wire handshake_messages) None (send_auth_ok all_ok c)"
proof -
  have r: "[CHR ''R'', NUL, NUL, NUL, CHR 0x08, NUL, NUL, NUL, NUL] = frame CHR ''R'' (be32 0)"
    by (simp add: frame_def be32_def byte_of_eq_iff)
  have k: "[CHR ''K'', NUL, NUL, NUL, CHR 0x0C, NUL, NUL, NUL, CHR 0x01, NUL, NUL, NUL, CHR 0x01]
      = frame CHR ''K'' (be32 1 @ be32 1)"
    by (simp add: frame_def be32_def byte_of_eq_iff)
  have "sent c (frame CHR ''R'' (be32 0)
      @ wire (map (\<lambda>(k, v). (CHR ''S'', k @ [NUL] @ v @ [NUL])) auth_parameters)
      @ frame CHR ''K'' (be32 1 @ be32 1) @ frame CHR ''Z'' [CHR ''I'']) None (send_auth_ok all_ok c)"
    unfolding send_auth_ok_def r k
    by (intro sent_and_then sent_messages sent_parameters)
  then show ?thesis
    by (simp add: handshake_messages_def)
qed

lemma serve_session_start:
  assumes "e_fate env = all_ok" and "parse_startup_params m = Some ud"
  shows "\<exists>n. serve_session env m c w = map_option (\<lambda>(s, c, w). (close_conn c, w))
    (client_loop env 0 new_session (c\<lparr>out := out c @ wire handshake_messages, writes := n\<rparr>) w)"
proof -
  obtain n where "send_auth_ok all_ok c = Some (None, c\<lparr>out := out c @ wire handshake_messages, writes := n\<rparr>)"
    using sent_auth_ok [of c] unfolding sent_def by blast
  with assms show ?thesis
    by (intro exI [of _ n], cases ud, cases "client_loop env 0 new_session
        (c\<lparr>out := out c @ wire handshake_messages, writes := n\<rparr>) w") (auto simp: serve_session_def)
qed

lemma length_startup_message [simp]: "length (startup_message body) = 4 + length body"
  by (simp add: startup_message_def)

lemma ssl_request_recognised:
  "length ssl_request = 8" "get_be32 (drop 4 ssl_request) = Some ssl_request_code"
  using get_be32_be32 [of ssl_request_code "[]"] by (simp_all add: ssl_request_def startup_message_def)

definition enc_startup :: "32 word \<Rightarrow> (bytes \<times> bytes) list \<Rightarrow> bytes" where
  "enc_startup version kvs = startup_message (be32 version @ enc_params kvs @ [NUL])"

lemma parse_enc_startup:
  assumes "\<forall>(k, v) \<in> set kvs. NUL \<notin> set k \<and> NUL \<notin> set v"
  shows "\<exists>ud. parse_startup_params (enc_startup version kvs) = Some ud"
  by (simp add: parse_startup_params_def enc_startup_def startup_message_def
      parse_params_enc [OF assms])

lemma handle_client_plain:
  assumes "inp c = enc_startup version kvs @ rest" and "length (enc_startup version kvs) \<le> startup_limit"
  shows "handle_client env c w = serve_session env (enc_startup version kvs) (c\<lparr>inp := rest\<rparr>) w"
proof -
  have r: "read_raw_message c True = (Inr (enc_startup version kvs), c\<lparr>inp := rest\<rparr>)"
    unfolding enc_startup_def
    by (rule read_raw_message_startup) (use assms in \<open>simp_all add: enc_startup_def\<close>)
  have "length (enc_startup version kvs) \<noteq> 8"
    by (simp add: enc_startup_def)
  with r show ?thesis
    by (simp add: handle_client_def)
qed

lemma handle_client_ssl:
  assumes "e_fate env = all_ok"
    and "inp c = ssl_request @ enc_startup version kvs @ rest"
    and "length (enc_startup version kvs) \<le> startup_limit"
  shows "handle_client env c w = serve_session env (enc_startup version kvs)
    (c\<lparr>inp := rest, out := out c @ ''N'', writes := writes c + 1\<rparr>) w"
proof -
  let ?s = "enc_startup version kvs"
  let ?c = "c\<lparr>inp := ?s @ rest, out := out c @ ''N'', writes := writes c + 1\<rparr>"
  have r1: "read_raw_message c True = (Inr ssl_request, c\<lparr>inp := ?s @ rest\<rparr>)"
    unfolding ssl_request_def
    by (rule read_raw_message_startup) (use assms(2) in \<open>simp_all add: ssl_request_def startup_limit_def\<close>)
  have r2: "read_raw_message ?c True = (Inr ?s, ?c\<lparr>inp := rest\<rparr>)"
    unfolding enc_startup_def
    by (rule read_raw_message_startup) (use assms(3) in \<open>simp_all add: enc_startup_def\<close>)
  have "?c\<lparr>inp := rest\<rparr> = c\<lparr>inp := rest, out := out c @ ''N'', writes := writes c + 1\<rparr>"
    by simp
  with r2 have r3: "read_raw_message ?c True =
      (Inr ?s, c\<lparr>inp := rest, out := out c @ ''N'', writes := writes c + 1\<rparr>)"
    by (simp only:)
  have w: "conn_write (e_fate env) ''N'' (c\<lparr>inp := ?s @ rest\<rparr>) = (None, ?c)"
    using assms(1) by simp
  show ?thesis
    unfolding handle_client_def r1 prod.case sum.case ssl_request_recognised w option.case r3
    by simp
qed

text \<open>
  C31. The handshake: a client that sends a well-formed startup message, after an SSL request or
  not, is sent the refusal \<open>N\<close> for the SSL request only, then \<open>AuthenticationOk\<close>, six
  parameters, the key data and \<open>ReadyForQuery\<close>, and its session starts outside a
  transaction with exactly the bytes that follow; the connection is closed at the end.
\<close>

theorem handshake_completes:
  assumes "e_fate env = (\<lambda>_. None)"
    and "inp c = (if ssl then ssl_request else []) @ enc_startup version kvs @ rest"
    and "length (enc_startup version kvs) \<le> startup_limit"
    and "\<forall>(k, v) \<in> set kvs. NUL \<notin> set k \<and> NUL \<notin> set v"
  shows "\<exists>n. handle_client env c w = map_option (\<lambda>(s, c, w). (close_conn c, w))
    (client_loop env 0 new_session
      (c\<lparr>inp := rest, out := out c @ (if ssl then ''N'' else []) @ wire handshake_messages, writes := n\<rparr>) w)"
proof -
  obtain ud where ud: "parse_startup_params (enc_startup version kvs) = Some ud"
    using parse_enc_startup [OF assms(4)] by blast
  show ?thesis
  proof (cases ssl)
    case True
    show ?thesis
      using handle_client_ssl [OF assms(1) _ assms(3), of c rest w] assms(2) True
        serve_session_start [OF assms(1) ud, of "c\<lparr>inp := rest, out := out c @ ''N'', writes := writes c + 1\<rparr>" w]
      by simp
  next
    case False
    show ?thesis
      using handle_client_plain [OF _ assms(3), of c rest env w] assms(2) False
        serve_session_start [OF assms(1) ud, of "c\<lparr>inp := rest\<rparr>" w]
      by simp
  qed
qed

theorem handshake_completes_witness:
  "\<exists>n. handle_client (demo_env (Inl EOF))
      \<lparr>inp = ssl_request @ enc_startup 196608 [(''user'', ''lab'')] @ [], inp_end = EOF, out = [], writes = 0,
        closed = False\<rparr> []
    = Some (\<lparr>inp = [], inp_end = EOF, out = ''N'' @ wire handshake_messages, writes = n, closed = True\<rparr>, [])"
proof -
  let ?c = "\<lparr>inp = ssl_request @ enc_startup 196608 [(''user'', ''lab'')] @ [], inp_end = EOF, out = [],
      writes = 0, closed = False\<rparr>"
  have len: "length (enc_startup 196608 [(''user'', ''lab'')]) \<le> startup_limit"
    by (simp add: enc_startup_def enc_params_def startup_limit_def)
  have "e_fate (demo_env (Inl EOF)) = (\<lambda>_. None)"
    and "inp ?c = (if True then ssl_request else []) @ enc_startup 196608 [(''user'', ''lab'')] @ []"
    by (simp_all add: demo_env_def)
  from handshake_completes [OF this len, of "[]"] show ?thesis
    by (simp add: client_loop_end close_conn_def)
qed

end
