(* ===== verification/Proxy_Run.thy ===== *)
theory Proxy_Run
  imports Proxy_Loop
begin

text \<open>
  \<open>NewProxy\<close>, \<open>ListenAndRun\<close> and \<open>Run\<close> of \<open>internal/proxy/proxy.go\<close>: the pools, the accept
  loop and the connection goroutines.

  The loop sees a sequence of happenings: a connection is accepted, \<open>Accept\<close> fails (with or
  without the context cancelled), or the goroutine of a connection runs. A conversation is one
  happening here; what it does to the backends' state is that of \<open>handle_client\<close>. A panic in a
  goroutine that nothing recovers ends the process.
\<close>

record proxy =
  px_listen_addr :: string
  px_primary_dsn :: string
  px_replica_dsn :: string

definition new_proxy :: "string \<Rightarrow> string \<Rightarrow> string \<Rightarrow> proxy" where
  "new_proxy listen_addr primary_dsn replica_dsn =
     \<lparr>px_listen_addr = listen_addr, px_primary_dsn = primary_dsn, px_replica_dsn = replica_dsn\<rparr>"

datatype happening = Accepts conn | Accept_fails bool | Client_runs nat

datatype run_outcome = Running | Stopped "gerr option" | Crashed

text \<open>The goroutines not yet finished, by a number, with the connection each serves.\<close>

record 'w run_state =
  rn_active :: int
  rn_clients :: "nat \<rightharpoonup> conn"
  rn_fresh :: nat
  rn_closed :: "conn list"
  rn_world :: 'w

fun accept_loop :: "'w env \<Rightarrow> happening list \<Rightarrow> 'w run_state \<Rightarrow> 'w run_state \<times> run_outcome" where
  "accept_loop env [] s = (s, Running)"
| "accept_loop env (Accepts c # hs) s =
     accept_loop env hs (s\<lparr>rn_active := rn_active s + 1, rn_clients := (rn_clients s)(rn_fresh s \<mapsto> c),
       rn_fresh := Suc (rn_fresh s)\<rparr>)"
| "accept_loop env (Accept_fails cancelled # hs) s =
     (if cancelled then (s, Stopped None) else accept_loop env hs s)"
| "accept_loop env (Client_runs i # hs) s =
     (case rn_clients s i of
        None \<Rightarrow> accept_loop env hs s
      | Some c \<Rightarrow> (case handle_client env c (rn_world s) of
            None \<Rightarrow> (s, Crashed)
          | Some (c', w) \<Rightarrow>
              accept_loop env hs (s\<lparr>rn_active := rn_active s - 1, rn_clients := (rn_clients s)(i := None),
                rn_closed := rn_closed s @ [c'], rn_world := w\<rparr>)))"

text \<open>What making the pools and pinging them gives.\<close>

record backends_up =
  bu_new :: "backend \<Rightarrow> gerr option"
  bu_ping :: "backend \<Rightarrow> gerr option"

definition start_run :: "'w \<Rightarrow> 'w run_state" where
  "start_run w = \<lparr>rn_active = 0, rn_clients = Map.empty, rn_fresh = 0, rn_closed = [], rn_world = w\<rparr>"

definition proxy_run :: "'w env \<Rightarrow> backends_up \<Rightarrow> happening list \<Rightarrow> 'w \<Rightarrow> 'w run_state \<times> run_outcome" where
  "proxy_run env bu hs w =
     (case bu_new bu Primary of
        Some e \<Rightarrow> (start_run w, Stopped (Some (Wrapped ''connect to primary: '' e)))
      | None \<Rightarrow> (case bu_new bu Replica of
            Some e \<Rightarrow> (start_run w, Stopped (Some (Wrapped ''connect to replica: '' e)))
          | None \<Rightarrow> (case bu_ping bu Primary of
                Some e \<Rightarrow> (start_run w, Stopped (Some (Wrapped ''ping primary: '' e)))
              | None \<Rightarrow> (case bu_ping bu Replica of
                    Some e \<Rightarrow> (start_run w, Stopped (Some (Wrapped ''ping replica: '' e)))
                  | None \<Rightarrow> accept_loop env hs (start_run w)))))"

definition listen_and_run ::
    "gerr option \<Rightarrow> 'w env \<Rightarrow> backends_up \<Rightarrow> happening list \<Rightarrow> 'w \<Rightarrow> 'w run_state \<times> run_outcome" where
  "listen_and_run listen_result env bu hs w =
     (case listen_result of
        Some e \<Rightarrow> (start_run w, Stopped (Some (Wrapped ''listen: '' e)))
      | None \<Rightarrow> proxy_run env bu hs w)"

text \<open>\<open>ActiveConns\<close>, and \<open>Close\<close>: the argument is the listener, if there is one, as what closing it
  gives.\<close>

definition active_conns :: "'w run_state \<Rightarrow> int" where
  "active_conns s = rn_active s"

definition close_proxy :: "gerr option option \<Rightarrow> gerr option" where
  "close_proxy listener = (case listener of None \<Rightarrow> None | Some result \<Rightarrow> result)"

section \<open>Facts\<close>

text \<open>The counter counts the goroutines not yet finished.\<close>

definition counted :: "'w run_state \<Rightarrow> bool" where
  "counted s \<longleftrightarrow> finite (dom (rn_clients s)) \<and> rn_active s = int (card (dom (rn_clients s)))
     \<and> (\<forall>i \<in> dom (rn_clients s). i < rn_fresh s)"

lemma counted_accept:
  assumes "counted s"
  shows "counted (s\<lparr>rn_active := rn_active s + 1, rn_clients := (rn_clients s)(rn_fresh s \<mapsto> c),
    rn_fresh := Suc (rn_fresh s)\<rparr>)"
proof -
  have "rn_fresh s \<notin> dom (rn_clients s)"
    using assms by (auto simp: counted_def)
  with assms show ?thesis
    by (auto simp: counted_def less_Suc_eq)
qed

lemma counted_finish:
  assumes "counted s" and "rn_clients s i = Some c"
  shows "counted (s\<lparr>rn_active := rn_active s - 1, rn_clients := (rn_clients s)(i := None),
    rn_closed := cs, rn_world := w\<rparr>)"
proof -
  have i: "i \<in> dom (rn_clients s)"
    using assms(2) by auto
  with assms(1) have "card (dom (rn_clients s)) \<noteq> 0"
    by (auto simp: counted_def)
  then have "int (card (dom (rn_clients s)) - 1) = int (card (dom (rn_clients s))) - 1"
    by (simp add: of_nat_diff)
  with i assms(1) show ?thesis
    by (auto simp: counted_def card_Diff_singleton)
qed

lemma accept_loop_counted: "counted s \<Longrightarrow> accept_loop env hs s = (s', r) \<Longrightarrow> counted s'"
proof (induction env hs s arbitrary: s' r rule: accept_loop.induct)
  case (2 env c hs s)
  from "2.IH" [OF counted_accept [OF "2.prems"(1)]] "2.prems"(2) show ?case by simp
next
  case (4 env i hs s)
  then show ?case
    using counted_finish [of s i] by (auto split: option.splits)
qed (auto split: if_splits)

lemma accept_loop_append:
  "accept_loop env hs s = (s1, Running) \<Longrightarrow> accept_loop env (hs @ hs') s = accept_loop env hs' s1"
proof (induction env hs s rule: accept_loop.induct)
  case (4 env i hs s)
  then show ?case by (auto split: option.splits)
qed (auto split: if_splits)

lemma accept_loop_failing: "accept_loop env (replicate n (Accept_fails False)) s = (s, Running)"
  by (induction n) auto

text \<open>A startup message that ends after a key, with its length.\<close>

definition malformed_startup :: conn where
  "malformed_startup =
     \<lparr>inp = be32 10 @ be32 196608 @ ''a'' @ [NUL], inp_end = EOF, out = [], writes = 0, closed = False\<rparr>"

section \<open>Properties\<close>

text \<open>
  The number of active connections is, whatever happens, the number of connections accepted
  whose goroutine has not finished: never negative, and 0 when there is none.
\<close>

theorem active_connections_counted:
  assumes "proxy_run env bu hs w = (s, r)"
  shows "active_conns s = int (card (dom (rn_clients s)))"
proof -
  have start: "counted (start_run w)"
    by (simp add: counted_def start_run_def)
  with assms have "counted s"
    using accept_loop_counted [OF start, of env hs s r] by (auto simp: proxy_run_def split: option.splits)
  then show ?thesis
    by (simp add: counted_def active_conns_def)
qed

text \<open>
  C33. One client can end the proxy for all: a connection whose startup message ends after a key
  panics in its goroutine, which nothing recovers, whatever other clients there are.
\<close>

theorem malformed_client_stops_proxy:
  assumes "accept_loop env hs s = (s1, Running)"
  shows "\<exists>s2. accept_loop env (hs @ Accepts malformed_startup # Client_runs (rn_fresh s1) # rest) s = (s2, Crashed)"
proof -
  have bytes: "be32 10 = [NUL, NUL, NUL, CHR 0x0A]" "be32 196608 = [NUL, CHR 0x03, NUL, NUL]"
    by (simp_all add: be32_def byte_of_eq_iff)
  have "fst (read_raw_message malformed_startup True) = Inr (be32 10 @ be32 196608 @ ''a'' @ [NUL])"
    by (simp add: read_raw_message_def malformed_startup_def read_full_def bytes startup_limit_def Let_def)
  moreover have "parse_startup_params (be32 10 @ be32 196608 @ ''a'' @ [NUL]) = None"
    by (simp add: parse_startup_params_def bytes parse_params.simps nul_index_def)
  ultimately have "handle_client env malformed_startup w = None" for w
    by (cases "read_raw_message malformed_startup True")
      (simp add: handle_client_def serve_session_def)
  then show ?thesis
    by (simp add: accept_loop_append [OF assms])
qed

text \<open>
  \<open>Close\<close> does not stop \<open>Run\<close>: once the listener is closed every \<open>Accept\<close> fails, and as long as
  the context is not cancelled the loop takes each failure as a reason to try again, however often
  it has failed; it does nothing else and never returns.
\<close>

theorem closed_listener_spins:
  assumes "proxy_run env bu hs w = (s, Running)"
  shows "proxy_run env bu (hs @ replicate n (Accept_fails False)) w = (s, Running)"
  using assms accept_loop_append accept_loop_failing [of env n]
  by (fastforce simp: proxy_run_def split: option.splits)

theorem closed_listener_spins_witness:
  "\<forall>(env :: nat env) w. proxy_run env \<lparr>bu_new = (\<lambda>b. None), bu_ping = (\<lambda>b. None)\<rparr> (replicate 1000 (Accept_fails False)) w
     = (start_run w, Running)"
proof (intro allI)
  fix env :: "nat env" and w
  have "proxy_run env \<lparr>bu_new = (\<lambda>b. None), bu_ping = (\<lambda>b. None)\<rparr> [] w = (start_run w, Running)"
    by (simp add: proxy_run_def)
  from closed_listener_spins [OF this, of 1000]
  show "proxy_run env \<lparr>bu_new = (\<lambda>b. None), bu_ping = (\<lambda>b. None)\<rparr> (replicate 1000 (Accept_fails False)) w
     = (start_run w, Running)"
    by (simp only: append_Nil)
qed

theorem active_connections_counted_witness:
  "\<forall>(env :: nat env) c w. \<exists>s r. proxy_run env \<lparr>bu_new = (\<lambda>b. None), bu_ping = (\<lambda>b. None)\<rparr> [Accepts c, Accepts c] w = (s, r)
     \<and> active_conns s = 2 \<and> card (dom (rn_clients s)) = 2"
proof (intro allI)
  fix env :: "nat env" and c w
  obtain s r where s: "proxy_run env \<lparr>bu_new = (\<lambda>b. None), bu_ping = (\<lambda>b. None)\<rparr> [Accepts c, Accepts c] w = (s, r)"
    by fastforce
  then have "active_conns s = 2"
    by (auto simp: active_conns_def proxy_run_def start_run_def)
  with active_connections_counted [OF s] s
  show "\<exists>s r. proxy_run env \<lparr>bu_new = (\<lambda>b. None), bu_ping = (\<lambda>b. None)\<rparr> [Accepts c, Accepts c] w = (s, r)
     \<and> active_conns s = 2 \<and> card (dom (rn_clients s)) = 2"
    by auto
qed

theorem malformed_client_stops_proxy_witness:
  "\<forall>env :: nat env. \<exists>s. accept_loop env [Accepts malformed_startup, Client_runs 0] (start_run 0) = (s, Crashed)"
proof
  fix env :: "nat env"
  have "accept_loop env [] (start_run 0) = (start_run 0, Running)" by simp
  from malformed_client_stops_proxy [OF this, of "[]"]
  show "\<exists>s. accept_loop env [Accepts malformed_startup, Client_runs 0] (start_run 0) = (s, Crashed)"
    by (simp only: append_Nil) (simp only: start_run_def run_state.select_convs)
qed

end
