(* ===== verification/Proxy_Conversation.thy ===== *)
theory Proxy_Conversation
  imports Proxy_Loop
begin

text \<open>
  What a client sees of the message loop of \<open>handleClient\<close> (\<open>internal/proxy/proxy.go\<close>): a
  conversation of requests and replies, without bytes, buffers and reads, and the proof that the
  loop carries it out. A request is a simple query, or a message of any other type but Terminate.
\<close>

section \<open>Conversations\<close>

datatype request = Ask bytes | Foreign char bytes

fun request_bytes :: "request \<Rightarrow> bytes" where
  "request_bytes (Ask sql) = query_message sql"
| "request_bytes (Foreign t p) = frame t p"

fun request_ok :: "request \<Rightarrow> bool" where
  "request_ok (Ask sql) \<longleftrightarrow> NUL \<notin> set sql \<and> length sql + 5 < 2 ^ 32"
| "request_ok (Foreign t p) \<longleftrightarrow> t \<noteq> CHR ''Q'' \<and> t \<noteq> CHR ''X'' \<and> length p + 4 < 2 ^ 32"

text \<open>The reply to a message of another type says idle, whatever the session is in.\<close>

definition foreign_reply :: "(char \<times> bytes) list" where
  "foreign_reply = [(CHR ''E'', error_payload unsupported_text), (CHR ''Z'', ''I'')]"

text \<open>The messages sent, the session and the databases after a list of requests.\<close>

fun conversation :: "'w env \<Rightarrow> session \<Rightarrow> 'w \<Rightarrow> request list \<Rightarrow> (char \<times> bytes) list \<times> session \<times> 'w" where
  "conversation env s w [] = ([], s, w)"
| "conversation env s w (Ask sql # rs) =
     (let (ms, s', w') = query_reply env sql s w; (ms', s'', w'') = conversation env s' w' rs
      in (ms @ ms', s'', w''))"
| "conversation env s w (Foreign t p # rs) =
     (let (ms', s'', w'') = conversation env s w rs in (foreign_reply @ ms', s'', w''))"

section \<open>The loop\<close>

lemma handle_other_reply:
  assumes "e_fate env = all_ok"
  shows "\<exists>n. handle_other env c = Some (c\<lparr>out := out c @ wire foreign_reply, writes := n\<rparr>)"
  by (rule exI [of _ "writes c + 2"])
    (simp add: handle_other_def assms send_eqs error_payload_def foreign_reply_def)

lemma client_loop_foreign:
  assumes "\<not> e_cancelled env k" and "inp c = frame t p @ rest" and "request_ok (Foreign t p)"
  shows "client_loop env k s c w =
    (case handle_other env (c\<lparr>inp := rest\<rparr>) of
       None \<Rightarrow> None | Some c \<Rightarrow> client_loop env (k + 1) s c w)"
proof -
  have "read_raw_message c False = (Inr (frame t p), c\<lparr>inp := rest\<rparr>)"
    by (rule read_raw_message_frame) (use assms(2,3) in simp_all)
  moreover have "frame t p ! 0 = t" and "frame t p \<noteq> []"
    by (simp_all add: frame_def)
  ultimately show ?thesis
    using assms(1,3) by (subst client_loop.simps) simp
qed

lemma client_loop_terminate:
  assumes "\<not> e_cancelled env k" and "inp c = frame CHR ''X'' p @ rest" and "length p + 4 < 2 ^ 32"
  shows "client_loop env k s c w = Some (s, c\<lparr>inp := rest\<rparr>, w)"
proof -
  have "read_raw_message c False = (Inr (frame CHR ''X'' p), c\<lparr>inp := rest\<rparr>)"
    by (rule read_raw_message_frame) (use assms in simp_all)
  moreover have "frame CHR ''X'' p ! 0 = CHR ''X''" and "frame CHR ''X'' p \<noteq> []"
    by (simp_all add: frame_def)
  ultimately show ?thesis
    using assms(1) by (subst client_loop.simps) simp
qed

lemma loop_converses:
  assumes "e_fate env = (\<lambda>_. None)" and "\<forall>k. \<not> e_cancelled env k"
    and "\<forall>r \<in> set rs. request_ok r" and "length p + 4 < 2 ^ 32"
    and "inp c = concat (map request_bytes rs) @ frame CHR ''X'' p @ rest"
    and "conversation env s w rs = (ms, s', w')"
  shows "\<exists>n. client_loop env k s c w = Some (s', c\<lparr>inp := rest, out := out c @ wire ms, writes := n\<rparr>, w')"
  using assms(3,5,6)
proof (induction rs arbitrary: k s c w ms)
  case Nil
  then show ?case
    using client_loop_terminate [OF assms(2) [rule_format] _ assms(4), of c rest k s w]
    by (intro exI [of _ "writes c"]) simp
next
  case (Cons r rs)
  let ?rest = "concat (map request_bytes rs) @ frame CHR ''X'' p @ rest"
  note live = assms(2) [rule_format]
  show ?case
  proof (cases r)
    case (Ask sql)
    obtain ms1 s1 w1 ms2 where q: "query_reply env sql s w = (ms1, s1, w1)"
      and r: "conversation env s1 w1 rs = (ms2, s', w')" and ms: "ms = ms1 @ ms2"
      using Cons.prems(3) Ask by (auto split: prod.splits)
    obtain n where h: "handle_query env sql s (c\<lparr>inp := ?rest\<rparr>) w
        = Some (s1, (c\<lparr>inp := ?rest\<rparr>)\<lparr>out := out c @ wire ms1, writes := n\<rparr>, w1)"
      using handle_query_reply [OF assms(1) q, of "c\<lparr>inp := ?rest\<rparr>"] by auto
    have "client_loop env k s c w = client_loop env (k + 1) s1 ((c\<lparr>inp := ?rest\<rparr>)\<lparr>out := out c @ wire ms1, writes := n\<rparr>) w1"
      using client_loop_step [OF live, of c sql ?rest k s w] Cons.prems(1,2) Ask h by simp
    with Cons.IH [OF _ _ r, of "(c\<lparr>inp := ?rest\<rparr>)\<lparr>out := out c @ wire ms1, writes := n\<rparr>" "k + 1"] Cons.prems(1)
    show ?thesis by (simp add: ms)
  next
    case (Foreign t q)
    obtain ms2 where r: "conversation env s w rs = (ms2, s', w')" and ms: "ms = foreign_reply @ ms2"
      using Cons.prems(3) Foreign by (auto split: prod.splits)
    obtain n where h: "handle_other env (c\<lparr>inp := ?rest\<rparr>)
        = Some ((c\<lparr>inp := ?rest\<rparr>)\<lparr>out := out c @ wire foreign_reply, writes := n\<rparr>)"
      using handle_other_reply [OF assms(1), of "c\<lparr>inp := ?rest\<rparr>"] by auto
    have "client_loop env k s c w = client_loop env (k + 1) s ((c\<lparr>inp := ?rest\<rparr>)\<lparr>out := out c @ wire foreign_reply, writes := n\<rparr>) w"
      using client_loop_foreign [OF live, of c t q ?rest k s w] Cons.prems(1,2) Foreign h by simp
    with Cons.IH [OF _ _ r, of "(c\<lparr>inp := ?rest\<rparr>)\<lparr>out := out c @ wire foreign_reply, writes := n\<rparr>" "k + 1"] Cons.prems(1)
    show ?thesis by (simp add: ms)
  qed
qed

section \<open>What the client reads\<close>

text \<open>A reader of the byte stream as the protocol defines it: a type byte, a length that counts
  itself, the payload.\<close>

fun dec_messages :: "bytes \<Rightarrow> (char \<times> bytes) list option" where
  "dec_messages [] = Some []"
| "dec_messages (t # bs) =
     (case get_be32 bs of
        None \<Rightarrow> None
      | Some n \<Rightarrow>
          if unat n < 4 \<or> length bs < unat n then None
          else map_option ((#) (t, drop 4 (take (unat n) bs))) (dec_messages (drop (unat n) bs)))"

lemma dec_messages_wire:
  "\<forall>(t, p) \<in> set ms. length p + 4 < 2 ^ 32 \<Longrightarrow> dec_messages (wire ms) = Some ms"
proof (induction ms)
  case Nil
  then show ?case by simp
next
  case (Cons m ms)
  obtain t p where m: "m = (t, p)" by fastforce
  let ?n = "word_of_nat (4 + length p) :: 32 word"
  have n: "unat ?n = 4 + length p"
    by (rule unat_of_nat_32) (use Cons.prems m in simp)
  have "wire (m # ms) = t # be32 ?n @ p @ wire ms"
    by (simp add: m frame_def)
  moreover have "get_be32 (be32 ?n @ p @ wire ms) = Some ?n"
    by (rule get_be32_be32)
  ultimately show ?case
    using Cons n m by (simp only: dec_messages.simps option.case) simp
qed

text \<open>The replies to each of a list of requests, and a client that counts a reply as complete when
  it reads \<open>ReadyForQuery\<close>.\<close>

fun replies :: "'w env \<Rightarrow> session \<Rightarrow> 'w \<Rightarrow> request list \<Rightarrow> (char \<times> bytes) list list" where
  "replies env s w [] = []"
| "replies env s w (Ask sql # rs) =
     (let (ms, s', w') = query_reply env sql s w in ms # replies env s' w' rs)"
| "replies env s w (Foreign t p # rs) = foreign_reply # replies env s w rs"

fun split_replies :: "(char \<times> bytes) list \<Rightarrow> (char \<times> bytes) list list" where
  "split_replies [] = []"
| "split_replies (m # ms) =
     (if fst m = CHR ''Z'' then [m] # split_replies ms
      else (case split_replies ms of [] \<Rightarrow> [[m]] | g # gs \<Rightarrow> (m # g) # gs))"

lemma length_replies: "length (replies env s w rs) = length rs"
  by (induction env s w rs rule: replies.induct) (auto split: prod.split)

lemma conversation_replies: "fst (conversation env s w rs) = concat (replies env s w rs)"
  by (induction env s w rs rule: replies.induct) (auto split: prod.split)

lemma split_replies_ready:
  "CHR ''Z'' \<notin> fst ` set ms \<Longrightarrow> split_replies (ms @ (CHR ''Z'', p) # ms') = (ms @ [(CHR ''Z'', p)]) # split_replies ms'"
  by (induction ms) auto

lemma split_conversation: "session_ok s \<Longrightarrow> split_replies (fst (conversation env s w rs)) = replies env s w rs"
proof (induction env s w rs rule: replies.induct)
  case (2 env s w sql rs)
  obtain ms s1 w1 where q: "query_reply env sql s w = (ms, s1, w1)"
    by (cases "query_reply env sql s w")
  obtain s0 b where "route (e_upper env) s sql = (s0, b)"
    by fastforce
  from query_reply_shape [OF 2(2) q this] obtain ms' st
    where "ms = ms' @ [(CHR ''Z'', [st])]" "CHR ''Z'' \<notin> fst ` set ms'" "session_ok s1"
    by blast
  with 2(1) [OF q [symmetric] refl] q show ?case
    by (simp add: split_replies_ready case_prod_beta)
qed (auto simp: foreign_reply_def split: prod.split)

section \<open>Properties\<close>

text \<open>
  C2. The loop carries out the conversation: for every list of requests followed by Terminate, and
  whatever the backends answer, the client is sent exactly the replies, in order and nothing else,
  the databases end up as the conversation has them, and what follows Terminate is not read.
\<close>

theorem client_loop_conversation:
  assumes "e_fate env = (\<lambda>_. None)" and "\<forall>k. \<not> e_cancelled env k"
    and "\<forall>r \<in> set rs. request_ok r" and "length p + 4 < 2 ^ 32"
    and "inp c = concat (map request_bytes rs) @ frame CHR ''X'' p @ rest"
    and "conversation env s w rs = (ms, s', w')"
  shows "\<exists>n. client_loop env k s c w = Some (s', c\<lparr>inp := rest, out := out c @ wire ms, writes := n\<rparr>, w')"
  using assms by (rule loop_converses)

text \<open>
  C13. A client that sends any requests and then Terminate, reads the bytes it gets message by message
  and takes \<open>ReadyForQuery\<close> for the end of a reply, reads exactly one reply per request, in the
  order of the requests, each the one the request is owed: requests and replies never get out of
  step, whatever mixture of queries, failures and unsupported messages it sends.
\<close>

theorem client_pairs_replies:
  assumes "e_fate env = (\<lambda>_. None)" and "\<forall>k. \<not> e_cancelled env k" and "session_ok s"
    and "\<forall>r \<in> set rs. request_ok r" and "length p + 4 < 2 ^ 32"
    and "inp c = concat (map request_bytes rs) @ frame CHR ''X'' p @ rest"
    and "\<forall>reply \<in> set (replies env s w rs). \<forall>(t, body) \<in> set reply. length body + 4 < 2 ^ 32"
  shows "\<exists>s' c' w' ms. client_loop env k s c w = Some (s', c', w')
    \<and> dec_messages (drop (length (out c)) (out c')) = Some ms
    \<and> split_replies ms = replies env s w rs \<and> length (split_replies ms) = length rs"
proof -
  obtain ms s' w' where conv: "conversation env s w rs = (ms, s', w')"
    by (cases "conversation env s w rs")
  then have ms: "ms = concat (replies env s w rs)"
    using conversation_replies [of env s w rs] by simp
  then have "dec_messages (wire ms) = Some ms"
    using assms(7) by (intro dec_messages_wire) auto
  moreover have "split_replies ms = replies env s w rs"
    using split_conversation [OF assms(3), of env w rs] conv by simp
  ultimately show ?thesis
    using loop_converses [OF assms(1,2,4-6) conv, of k] by (auto simp: length_replies)
qed

theorem client_loop_conversation_witness:
  "\<exists>n. client_loop (demo_env (Inl (ErrMsg ''down''))) 0 new_session
      \<lparr>inp = query_message ''SELECT 1'' @ frame CHR ''P'' [] @ frame CHR ''X'' [], inp_end = EOF, out = [],
       writes = 0, closed = False\<rparr> []
    = Some (new_session, \<lparr>inp = [], inp_end = EOF,
        out = wire [(CHR ''E'', error_payload ''down''), (CHR ''Z'', ''I''),
          (CHR ''E'', error_payload unsupported_text), (CHR ''Z'', ''I'')], writes = n, closed = False\<rparr>,
        [(Replica, ''SELECT 1'')])"
proof -
  let ?rs = "[Ask ''SELECT 1'', Foreign CHR ''P'' []]"
  have "route id new_session ''SELECT 1'' = (new_session, Replica)"
    using classify_select [of id "''1''"] by (simp add: route_def new_session_def)
  then have conv: "conversation (demo_env (Inl (ErrMsg ''down''))) new_session [] ?rs
      = ([(CHR ''E'', error_payload ''down''), (CHR ''Z'', ''I''),
          (CHR ''E'', error_payload unsupported_text), (CHR ''Z'', ''I'')], new_session, [(Replica, ''SELECT 1'')])"
    by (simp add: query_reply_def demo_env_def note_failure_def ready_status_def new_session_def foreign_reply_def)
  have env: "e_fate (demo_env (Inl (ErrMsg ''down''))) = (\<lambda>_. None)"
      "\<forall>k. \<not> e_cancelled (demo_env (Inl (ErrMsg ''down''))) k"
    by (simp_all add: demo_env_def)
  have "\<forall>r \<in> set ?rs. request_ok r"
    by simp
  from client_loop_conversation [OF env this _ _ conv, of "[]"
      "\<lparr>inp = query_message ''SELECT 1'' @ frame CHR ''P'' [] @ frame CHR ''X'' [], inp_end = EOF, out = [],
       writes = 0, closed = False\<rparr>" "[]" 0]
  show ?thesis
    by simp
qed

theorem client_pairs_replies_witness:
  "\<exists>s' c' w' ms. client_loop (demo_env (Inl (ErrMsg ''down''))) 0 new_session
      \<lparr>inp = query_message ''SELECT 1'' @ frame CHR ''P'' [] @ frame CHR ''X'' [], inp_end = EOF, out = [],
       writes = 0, closed = False\<rparr> [] = Some (s', c', w')
    \<and> dec_messages (out c') = Some ms \<and> length (split_replies ms) = 2"
proof -
  let ?env = "demo_env (Inl (ErrMsg ''down''))" and ?rs = "[Ask ''SELECT 1'', Foreign CHR ''P'' []]"
  have env: "e_fate ?env = (\<lambda>_. None)" "\<forall>k. \<not> e_cancelled ?env k"
    by (simp_all add: demo_env_def)
  have "\<forall>r \<in> set ?rs. request_ok r"
    by simp
  moreover have "\<forall>reply \<in> set (replies ?env new_session [] ?rs). \<forall>(t, body) \<in> set reply. length body + 4 < 2 ^ 32"
    by (auto simp: query_reply_def demo_env_def foreign_reply_def error_payload_def unsupported_text_def split: prod.splits)
  ultimately show ?thesis
    using client_pairs_replies [OF env session_ok_new, of ?rs "[]"
      "\<lparr>inp = query_message ''SELECT 1'' @ frame CHR ''P'' [] @ frame CHR ''X'' [], inp_end = EOF, out = [],
       writes = 0, closed = False\<rparr>" "[]" "[]" 0]
    by (auto simp: numeral_2_eq_2 simp del: replies.simps)
qed

end
