(* ===== verification/Proxy_Sessions.thy ===== *)
theory Proxy_Sessions
  imports Proxy_Loop
begin

text \<open>
  Many clients at once: \<open>Run\<close> of \<open>internal/proxy/proxy.go\<close> serves every connection in a
  goroutine of its own, and the goroutines share only the pools. One turn of the message loop is
  a step here, and a schedule of connection numbers says whose turn is next, so that turns of
  different connections interleave in any order. A turn is not cut further: what it shares with
  the others is its one query.
\<close>

section \<open>One turn\<close>

text \<open>One iteration of the loop in \<open>handleClient\<close>; \<open>False\<close> when it returns.\<close>

definition client_turn ::
    "'w env \<Rightarrow> nat \<Rightarrow> session \<Rightarrow> conn \<Rightarrow> 'w \<Rightarrow> (bool \<times> session \<times> conn \<times> 'w) option" where
  "client_turn env k s c w =
     (if e_cancelled env k then Some (False, s, c, w)
      else (case read_raw_message c False of
         (Inl e, c) \<Rightarrow> Some (False, s, c, w)
       | (Inr msg, c) \<Rightarrow>
           if length msg = 0 then Some (True, s, c, w)
           else if msg ! 0 = CHR ''X'' then Some (False, s, c, w)
           else if msg ! 0 = CHR ''Q'' then
             map_option (Pair True) (handle_query env (extract_sql msg) s c w)
           else map_option (\<lambda>c. (True, s, c, w)) (handle_other env c)))"

lemma client_loop_turn:
  "client_loop env k s c w =
    (case client_turn env k s c w of
       None \<Rightarrow> None
     | Some (goes_on, s, c, w) \<Rightarrow> if goes_on then client_loop env (k + 1) s c w else Some (s, c, w))"
  by (subst client_loop.simps)
    (auto simp: client_turn_def split: prod.split sum.split option.split)

section \<open>Interleaving\<close>

record client =
  cl_turns :: nat
  cl_session :: session
  cl_conn :: conn
  cl_live :: bool

text \<open>The turns of a schedule. A connection that has ended takes no more turns.\<close>

fun interleave ::
    "(nat \<Rightarrow> 'w env) \<Rightarrow> nat list \<Rightarrow> (nat \<Rightarrow> client) \<times> 'w \<Rightarrow> ((nat \<Rightarrow> client) \<times> 'w) option" where
  "interleave env [] st = Some st"
| "interleave env (i # is) (cl, w) =
     (if cl_live (cl i) then
        (case client_turn (env i) (cl_turns (cl i)) (cl_session (cl i)) (cl_conn (cl i)) w of
           None \<Rightarrow> None
         | Some (goes_on, s, c, w') \<Rightarrow>
             interleave env is
               (cl(i := \<lparr>cl_turns = cl_turns (cl i) + 1, cl_session = s, cl_conn = c, cl_live = goes_on\<rparr>), w'))
      else interleave env is (cl, w))"

text \<open>An environment whose queries are logged with the connection that made them.\<close>

definition tag_env :: "nat \<Rightarrow> 'w env \<Rightarrow> ('w \<times> (nat \<times> backend \<times> bytes) list) env" where
  "tag_env i env = \<lparr>e_upper = e_upper env,
     e_query = (\<lambda>b sql (w, l). let (r, w') = e_query env b sql w in (r, (w', l @ [(i, b, sql)]))),
     e_cancelled = e_cancelled env, e_fate = e_fate env\<rparr>"

lemma tag_env_simps [simp]:
  "e_upper (tag_env i env) = e_upper env" "e_cancelled (tag_env i env) = e_cancelled env"
  "e_fate (tag_env i env) = e_fate env"
  by (simp_all add: tag_env_def)

lemma handle_query_tag:
  "\<exists>s' c' w'. handle_query (tag_env i env) sql s c (w, l) =
      Some (s', c', (w', l @ [(i, snd (route (e_upper env) s sql), sql)]))
    \<and> in_transaction s' = in_transaction (fst (route (e_upper env) s sql)) \<and> inp c' = inp c"
proof -
  obtain s1 b where r: "route (e_upper env) s sql = (s1, b)"
    by (cases "route (e_upper env) s sql")
  obtain q w1 where q: "e_query env b sql w = (q, w1)"
    by (cases "e_query env b sql w")
  have "snd (execute_and_relay (tag_env i env) b sql (ready_status s1) c (w, l)) = (w1, l @ [(i, b, sql)])"
    by (cases q) (simp_all add: execute_and_relay_def tag_env_def q)
  then obtain e c1 where x: "execute_and_relay (tag_env i env) b sql (ready_status s1) c (w, l)
      = (Some (e, c1), (w1, l @ [(i, b, sql)]))" and c1: "inp c1 = inp c"
    using execute_and_relay_sends [of "tag_env i env" b sql "ready_status s1" c "(w, l)"] by auto
  show ?thesis
    by (cases e) (simp_all add: handle_query_def r x c1 send_eqs conn_write_frame split_beta Let_def)
qed

text \<open>The turn of a client whose next message is a query, and of one that has sent all.\<close>

lemma client_turn_query:
  assumes "\<not> e_cancelled env k" and "inp c = query_message sql @ rest"
    and "NUL \<notin> set sql" and "length sql + 5 < 2 ^ 32"
  shows "client_turn env k s c w = map_option (Pair True) (handle_query env sql s (c\<lparr>inp := rest\<rparr>) w)"
proof -
  have "read_raw_message c False = (Inr (query_message sql), c\<lparr>inp := rest\<rparr>)"
    unfolding query_message_def
    by (rule read_raw_message_frame) (use assms(2,4) in \<open>simp_all add: query_message_def\<close>)
  moreover have "extract_sql (query_message sql) = sql"
    using extract_sql_frames(1) [OF assms(3), of "[]"] by (simp add: query_message_def)
  moreover have "query_message sql ! 0 = CHR ''Q''" and "query_message sql \<noteq> []"
    by (simp_all add: query_message_def frame_def)
  ultimately show ?thesis
    using assms(1) by (simp add: client_turn_def)
qed

lemma client_turn_end:
  "\<not> e_cancelled env k \<Longrightarrow> inp c = [] \<Longrightarrow> client_turn env k s c w = Some (False, s, c\<lparr>inp := []\<rparr>, w)"
  by (auto simp: client_turn_def read_raw_message_def read_full_def)

text \<open>A client that has only sent queries: those still to be read, and the flag of its session.\<close>

definition sends_queries :: "client \<Rightarrow> bytes list \<Rightarrow> bool" where
  "sends_queries c qs \<longleftrightarrow> inp (cl_conn c) = concat (map query_message qs) \<and> (cl_live c \<or> qs = [])"

definition queries_ok :: "bytes list \<Rightarrow> bool" where
  "queries_ok qs \<longleftrightarrow> (\<forall>q \<in> set qs. NUL \<notin> set q \<and> length q + 5 < 2 ^ 32)"

definition made_by :: "nat \<Rightarrow> (nat \<times> backend \<times> bytes) list \<Rightarrow> (backend \<times> bytes) list" where
  "made_by i l = map snd (filter (\<lambda>x. fst x = i) l)"

lemma made_by_append [simp]: "made_by i (l @ l') = made_by i l @ made_by i l'"
  by (simp add: made_by_def)

text \<open>The queries still to be made by every client, from what is left of a schedule.\<close>

definition planned :: "(nat \<Rightarrow> 'w env) \<Rightarrow> nat list \<Rightarrow> (nat \<Rightarrow> client) \<Rightarrow> (nat \<Rightarrow> bytes list) \<Rightarrow> nat \<Rightarrow> (backend \<times> bytes) list" where
  "planned env sched cl qs i =
     take (count_list sched i) (zip (backends (e_upper (env i)) (cl_session (cl i)) (qs i)) (qs i))"

definition clients_ok :: "(nat \<Rightarrow> client) \<Rightarrow> (nat \<Rightarrow> bytes list) \<Rightarrow> bool" where
  "clients_ok cl qs \<longleftrightarrow> (\<forall>i. sends_queries (cl i) (qs i) \<and> queries_ok (qs i))"

text \<open>The two kinds of turn of such a client.\<close>

lemma interleave_end_turn:
  assumes "\<forall>k. \<not> e_cancelled (env i) k" and "clients_ok cl qs" and "qs i = []"
  obtains cl1 where "interleave env (i # sched) (cl, w) = interleave env sched (cl1, w)"
    and "clients_ok cl1 qs" and "planned env sched cl1 qs = planned env (i # sched) cl qs"
proof (cases "cl_live (cl i)")
  case False
  then show thesis
    using assms(2,3) by (intro that [of cl]) (auto simp: planned_def fun_eq_iff)
next
  case True
  let ?cl = "cl(i := \<lparr>cl_turns = cl_turns (cl i) + 1, cl_session = cl_session (cl i),
      cl_conn = (cl_conn (cl i))\<lparr>inp := []\<rparr>, cl_live = False\<rparr>)"
  have "inp (cl_conn (cl i)) = []"
    using assms(2,3) by (auto simp: clients_ok_def sends_queries_def dest: spec [of _ i])
  with assms(1) True show thesis
    using assms(2,3)
    by (intro that [of ?cl]) (auto simp: client_turn_end clients_ok_def sends_queries_def planned_def fun_eq_iff)
qed

lemma interleave_query_turn:
  assumes "\<forall>k. \<not> e_cancelled (env i) k" and "clients_ok cl qs" and "qs i = q # rest"
  obtains cl1 w1 where "interleave (\<lambda>i. tag_env i (env i)) (i # sched) (cl, (w, l)) =
      interleave (\<lambda>i. tag_env i (env i)) sched (cl1, (w1, l @ [(i, snd (route (e_upper (env i)) (cl_session (cl i)) q), q)]))"
    and "clients_ok cl1 (qs(i := rest))"
    and "\<And>j. planned env (i # sched) cl qs j =
      (if j = i then [(snd (route (e_upper (env i)) (cl_session (cl i)) q), q)] else []) @ planned env sched cl1 (qs(i := rest)) j"
proof -
  let ?s = "cl_session (cl i)" and ?c = "(cl_conn (cl i))\<lparr>inp := concat (map query_message rest)\<rparr>"
  have client: "cl_live (cl i)" "inp (cl_conn (cl i)) = query_message q @ concat (map query_message rest)"
    and ok: "queries_ok rest" "NUL \<notin> set q" "length q + 5 < 2 ^ 32"
    using assms(2,3) by (auto simp: clients_ok_def sends_queries_def queries_ok_def dest: spec [of _ i])
  obtain s1 c1 w1 where h: "handle_query (tag_env i (env i)) q ?s ?c (w, l) =
      Some (s1, c1, (w1, l @ [(i, snd (route (e_upper (env i)) ?s q), q)]))"
    and t: "in_transaction s1 = in_transaction (fst (route (e_upper (env i)) ?s q))"
    and inp: "inp c1 = concat (map query_message rest)"
    using handle_query_tag [of i "env i" q ?s ?c w l] by auto
  let ?cl = "cl(i := \<lparr>cl_turns = cl_turns (cl i) + 1, cl_session = s1, cl_conn = c1, cl_live = True\<rparr>)"
  have "client_turn (tag_env i (env i)) (cl_turns (cl i)) ?s (cl_conn (cl i)) (w, l)
      = map_option (Pair True) (handle_query (tag_env i (env i)) q ?s ?c (w, l))"
    by (rule client_turn_query) (use assms(1) client ok in simp_all)
  with client(1) h have "interleave (\<lambda>i. tag_env i (env i)) (i # sched) (cl, (w, l)) =
      interleave (\<lambda>i. tag_env i (env i)) sched (?cl, (w1, l @ [(i, snd (route (e_upper (env i)) ?s q), q)]))"
    by simp
  moreover have "clients_ok ?cl (qs(i := rest))"
    using assms(2) ok(1) inp by (auto simp: clients_ok_def sends_queries_def)
  moreover have "planned env (i # sched) cl qs j = (if j = i then [(snd (route (e_upper (env i)) ?s q), q)] else [])
      @ planned env sched ?cl (qs(i := rest)) j" for j
    using backends_cong [OF t, of "e_upper (env i)" rest]
    by (simp add: planned_def assms(3) backends_Cons del: backends.simps(2))
  ultimately show thesis
    by (rule that)
qed

lemma interleave_made_by:
  assumes "\<forall>i k. \<not> e_cancelled (env i) k" and "clients_ok cl qs"
  shows "\<exists>cl' w' l'. interleave (\<lambda>i. tag_env i (env i)) sched (cl, (w, l)) = Some (cl', (w', l @ l'))
    \<and> (\<forall>i. made_by i l' = planned env sched cl qs i)"
  using assms(2)
proof (induction sched arbitrary: cl w l qs)
  case Nil
  then show ?case by (simp add: made_by_def planned_def)
next
  case (Cons i sched)
  show ?case
  proof (cases "qs i")
    case Nil
    obtain cl1 where step: "interleave (\<lambda>i. tag_env i (env i)) (i # sched) (cl, (w, l))
        = interleave (\<lambda>i. tag_env i (env i)) sched (cl1, (w, l))" and ok: "clients_ok cl1 qs"
      and "planned (\<lambda>i. tag_env i (env i)) sched cl1 qs = planned (\<lambda>i. tag_env i (env i)) (i # sched) cl qs"
      using interleave_end_turn [of "\<lambda>i. tag_env i (env i)" i cl qs sched "(w, l)", OF _ Cons.prems Nil]
        assms(1) by auto
    then have "planned env sched cl1 qs = planned env (i # sched) cl qs"
      by (simp add: planned_def fun_eq_iff)
    with Cons.IH [OF ok, of w l] show ?thesis
      unfolding step by simp
  next
    case (Cons q rest)
    let ?e = "(snd (route (e_upper (env i)) (cl_session (cl i)) q), q)"
    obtain cl1 w1 where step: "interleave (\<lambda>i. tag_env i (env i)) (i # sched) (cl, (w, l))
        = interleave (\<lambda>i. tag_env i (env i)) sched (cl1, (w1, l @ [(i, ?e)]))"
      and ok: "clients_ok cl1 (qs(i := rest))"
      and plan: "\<And>j. planned env (i # sched) cl qs j = (if j = i then [?e] else []) @ planned env sched cl1 (qs(i := rest)) j"
      using interleave_query_turn [where sched = sched and w = w and l = l, OF _ Cons.prems Cons] assms(1) by blast
    from Cons.IH [OF ok, of w1 "l @ [(i, ?e)]"] obtain cl' w' l' where
      run: "interleave (\<lambda>i. tag_env i (env i)) sched (cl1, (w1, l @ [(i, ?e)])) = Some (cl', (w', (l @ [(i, ?e)]) @ l'))"
      and made: "\<forall>j. made_by j l' = planned env sched cl1 (qs(i := rest)) j"
      by blast
    show ?thesis
      unfolding step plan
      by (intro exI [of _ cl'] exI [of _ w'] exI [of _ "(i, ?e) # l'"]) (use run made in \<open>simp add: made_by_def\<close>)
  qed
qed

section \<open>Properties\<close>

text \<open>
  C5. Sessions are isolated: under any interleaving of the connections' turns, whatever the
  backends answer and whatever happens to the writes, the queries made for a connection are its
  own, in order, as many as it has had turns for, and each on the backend that the routing of
  this connection's statements alone gives; no other connection's transaction has a say in it.
\<close>

theorem sessions_isolated:
  assumes "\<forall>i k. \<not> e_cancelled (env i) k"
    and "\<forall>i. sends_queries (cl i) (qs i) \<and> queries_ok (qs i)"
  shows "\<exists>cl' w' l. interleave (\<lambda>i. tag_env i (env i)) sched (cl, (w, [])) = Some (cl', (w', l))
    \<and> (\<forall>i. made_by i l =
        take (count_list sched i) (zip (backends (e_upper (env i)) (cl_session (cl i)) (qs i)) (qs i)))"
  using interleave_made_by [OF assms(1), of cl qs sched w "[]"] assms(2) by (simp add: clients_ok_def planned_def)

theorem sessions_isolated_witness:
  "\<exists>cl' w' l. interleave (\<lambda>i. tag_env i (demo_env (Inl EOF))) [1, 0, 1, 0]
      (\<lambda>i. \<lparr>cl_turns = 0, cl_session = new_session, cl_conn =
        \<lparr>inp = (if i = 0 then query_message ''BEGIN'' @ query_message ''SELECT 1'' else if i = 1 then query_message ''SELECT 2'' else []),
         inp_end = EOF, out = [], writes = 0, closed = False\<rparr>, cl_live = True\<rparr>, ([], [])) = Some (cl', (w', l))
    \<and> made_by 0 l = [(Primary, ''BEGIN''), (Primary, ''SELECT 1'')] \<and> made_by 1 l = [(Replica, ''SELECT 2'')]"
proof -
  let ?qs = "\<lambda>i :: nat. if i = 0 then [''BEGIN'', ''SELECT 1''] else if i = 1 then [''SELECT 2''] else []"
  let ?cl = "\<lambda>i :: nat. \<lparr>cl_turns = 0, cl_session = new_session, cl_conn =
        \<lparr>inp = (if i = 0 then query_message ''BEGIN'' @ query_message ''SELECT 1'' else if i = 1 then query_message ''SELECT 2'' else []),
         inp_end = EOF, out = [], writes = 0, closed = False\<rparr>, cl_live = True\<rparr>"
  have live: "\<forall>i k. \<not> e_cancelled (demo_env (Inl EOF)) k"
    by (simp add: demo_env_def)
  have sends: "\<forall>i. sends_queries (?cl i) (?qs i) \<and> queries_ok (?qs i)"
    by (auto simp: sends_queries_def queries_ok_def)
  have "backends id new_session [''BEGIN'' @ [], ''SELECT 1''] = replicate 2 Primary"
    using route_begin [of "''BEGIN''" "[]" id new_session] classify_select [of id "''1''"]
    by (simp add: begin_spellings_def route_def Let_def numeral_2_eq_2)
  moreover have "backends id new_session [''SELECT 2''] = [Replica]"
    using classify_select [of id "''2''"] by (simp add: route_def new_session_def)
  moreover obtain cl' w' l where run: "interleave (\<lambda>i. tag_env i (demo_env (Inl EOF))) [1, 0, 1, 0] (?cl, ([], []))
      = Some (cl', (w', l))"
    and made: "made_by i l = take (count_list [1, 0, 1, 0] i)
      (zip (backends (e_upper (demo_env (Inl EOF))) (cl_session (?cl i)) (?qs i)) (?qs i))" for i
    using sessions_isolated [OF live sends, of "[1, 0, 1, 0]" "[]"] by blast
  ultimately have "made_by 0 l = [(Primary, ''BEGIN''), (Primary, ''SELECT 1'')]" "made_by 1 l = [(Replica, ''SELECT 2'')]"
    using made [of 0] made [of 1] by (simp_all add: demo_env_def numeral_2_eq_2)
  with run show ?thesis
    by blast
qed

end
