(* ===== verification/Proxy_Transactions.thy ===== *)
theory Proxy_Transactions
  imports Proxy_Sessions
begin

text \<open>
  What becomes of transactions behind the proxy of \<open>internal/proxy/proxy.go\<close>. \<open>executeAndRelay\<close> gives
  every statement to \<open>pool.Query\<close> by itself, also inside a transaction, so each is executed on
  whatever connection the pool has free.

  The pool and the databases are not part of the repository. They are a record of functions: what
  taking a connection, executing a statement on it and giving it back do. Of them is assumed what
  is documented: a connection that is given out is not in a transaction block (pgxpool closes one
  that is given back inside a block), and on such a connection \<open>BEGIN\<close> changes nothing in the
  database, and \<open>COMMIT\<close> and \<open>ROLLBACK\<close> are no more than a warning.
\<close>

section \<open>What the databases go through\<close>

text \<open>The effect of statements on the databases, each on its backend, one after the other.\<close>

definition run_statements :: "'w env \<Rightarrow> (backend \<times> bytes) list \<Rightarrow> 'w \<Rightarrow> 'w" where
  "run_statements env sts = fold (\<lambda>(b, sql) w. snd (e_query env b sql w)) sts"

lemma handle_query_world:
  "\<exists>s' c'. handle_query env sql s c w = Some (s', c', snd (e_query env (snd (route (e_upper env) s sql)) sql w))
    \<and> in_transaction s' = in_transaction (fst (route (e_upper env) s sql)) \<and> inp c' = inp c"
proof -
  obtain s1 b where r: "route (e_upper env) s sql = (s1, b)"
    by (cases "route (e_upper env) s sql")
  have "snd (execute_and_relay env b sql (ready_status s1) c w) = snd (e_query env b sql w)"
    by (simp add: execute_and_relay_def split: prod.split sum.split)
  then obtain e c1 where x: "execute_and_relay env b sql (ready_status s1) c w
      = (Some (e, c1), snd (e_query env b sql w))" and c1: "inp c1 = inp c"
    using execute_and_relay_sends [of env b sql "ready_status s1" c w] by auto
  show ?thesis
    by (cases e) (simp_all add: handle_query_def r x c1 send_eqs conn_write_frame split_beta Let_def)
qed

lemma client_loop_world:
  assumes "\<forall>k. \<not> e_cancelled env k" and "inp c = concat (map query_message qs)" and "queries_ok qs"
  shows "\<exists>s' c'. client_loop env k s c w =
    Some (s', c', run_statements env (zip (backends (e_upper env) s qs) qs) w)"
  using assms(2,3)
proof (induction qs arbitrary: k s c w)
  case Nil
  then show ?case
    by (simp add: client_loop_end run_statements_def)
next
  case (Cons q qs)
  let ?c = "c\<lparr>inp := concat (map query_message qs)\<rparr>" and ?b = "snd (route (e_upper env) s q)"
  have ok: "queries_ok qs" "NUL \<notin> set q" "length q + 5 < 2 ^ 32"
    using Cons.prems(2) by (simp_all add: queries_ok_def)
  obtain s1 c1 where h: "handle_query env q s ?c w = Some (s1, c1, snd (e_query env ?b q w))"
    and t: "in_transaction s1 = in_transaction (fst (route (e_upper env) s q))"
    and i: "inp c1 = concat (map query_message qs)"
    using handle_query_world [of env q s ?c w] by auto
  have "client_loop env k s c w = client_loop env (k + 1) s1 c1 (snd (e_query env ?b q w))"
    using client_loop_step [of env k c q "concat (map query_message qs)" s w] Cons.prems(1) assms(1) ok h
    by simp
  with Cons.IH [OF i ok(1), of "k + 1" s1 "snd (e_query env ?b q w)"] show ?case
    by (simp add: run_statements_def backends_Cons backends_cong [OF t] del: backends.simps(2))
qed

section \<open>The pools\<close>

text \<open>\<open>'d\<close> is what is committed in the databases, \<open>'c\<close> a connection with its transaction block, if it
  is in one, and \<open>'p\<close> the pools.\<close>

record ('d, 'p, 'c) pools =
  pl_acquire :: "backend \<Rightarrow> 'p \<Rightarrow> 'c \<times> 'p"
  pl_exec :: "backend \<Rightarrow> bytes \<Rightarrow> 'c \<Rightarrow> 'd \<Rightarrow> (gerr + rows) \<times> 'c \<times> 'd"
  pl_release :: "backend \<Rightarrow> 'c \<Rightarrow> 'p \<Rightarrow> 'p"
  pl_ok :: "'p \<Rightarrow> bool"
  pl_idle :: "'c \<Rightarrow> bool"

definition pool_query :: "('d, 'p, 'c) pools \<Rightarrow> backend \<Rightarrow> bytes \<Rightarrow> 'd \<times> 'p \<Rightarrow> (gerr + rows) \<times> 'd \<times> 'p" where
  "pool_query pl b sql = (\<lambda>(d, p).
     (case pl_acquire pl b p of (c, p1) \<Rightarrow>
        (case pl_exec pl b sql c d of (r, c', d') \<Rightarrow> (r, d', pl_release pl b c' p1))))"

definition pool_contract :: "('d, 'p, 'c) pools \<Rightarrow> bool" where
  "pool_contract pl \<longleftrightarrow> (\<forall>b p. pl_ok pl p \<longrightarrow> pl_idle pl (fst (pl_acquire pl b p)) \<and> pl_ok pl (snd (pl_acquire pl b p)))
     \<and> (\<forall>b c p. pl_ok pl p \<longrightarrow> pl_ok pl (pl_release pl b c p))"

definition control_statements :: "bytes set" where
  "control_statements = {''BEGIN'', ''COMMIT'', ''ROLLBACK''}"

definition control_contract :: "('d, 'p, 'c) pools \<Rightarrow> bool" where
  "control_contract pl \<longleftrightarrow> (\<forall>b sql c d. sql \<in> control_statements \<and> pl_idle pl c \<longrightarrow> snd (snd (pl_exec pl b sql c d)) = d)"

text \<open>Statements executed one by one, each on a connection that is not in a transaction block, so
  that each is a transaction of its own.\<close>

inductive each_alone :: "('d, 'p, 'c) pools \<Rightarrow> (backend \<times> bytes) list \<Rightarrow> 'd \<Rightarrow> 'd \<Rightarrow> bool" for pl where
  none_left: "each_alone pl [] d d"
| next_alone: "pl_idle pl c \<Longrightarrow> pl_exec pl b sql c d = (r, c', d1) \<Longrightarrow> each_alone pl sts d1 d2 \<Longrightarrow>
    each_alone pl ((b, sql) # sts) d d2"

definition without_control :: "(backend \<times> bytes) list \<Rightarrow> (backend \<times> bytes) list" where
  "without_control sts = filter (\<lambda>(b, sql). sql \<notin> control_statements) sts"

lemma pool_query_idle:
  assumes "pool_contract pl" and "pl_ok pl p"
  obtains c r c' d1 p1 where "pl_idle pl c" and "pl_exec pl b sql c d = (r, c', d1)"
    and "pool_query pl b sql (d, p) = (r, d1, p1)" and "pl_ok pl p1"
proof -
  obtain c p0 where a: "pl_acquire pl b p = (c, p0)"
    by fastforce
  obtain r c' d1 where e: "pl_exec pl b sql c d = (r, c', d1)"
    by (cases "pl_exec pl b sql c d")
  have "pl_idle pl c" and ok: "pl_ok pl p0"
    using assms a unfolding pool_contract_def by (metis fst_conv, metis snd_conv)
  moreover have "pl_ok pl (pl_release pl b c' p0)"
    using assms(1) ok by (simp add: pool_contract_def)
  ultimately show thesis
    using a e by (intro that [of c r c' d1 "pl_release pl b c' p0"]) (simp_all add: pool_query_def)
qed

lemma run_statements_alone:
  assumes "pool_contract pl" and "control_contract pl" and "e_query env = pool_query pl" and "pl_ok pl p"
  shows "each_alone pl (without_control sts) d (fst (run_statements env sts (d, p)))"
  using assms(4)
proof (induction sts arbitrary: d p)
  case Nil
  show ?case by (simp add: without_control_def run_statements_def each_alone.none_left)
next
  case (Cons st sts)
  obtain b sql where st: "st = (b, sql)" by fastforce
  obtain c r c' d1 p1 where one: "pl_idle pl c" "pl_exec pl b sql c d = (r, c', d1)"
      "pool_query pl b sql (d, p) = (r, d1, p1)" "pl_ok pl p1"
    using pool_query_idle [OF assms(1) Cons.prems] by blast
  have run: "run_statements env (st # sts) (d, p) = run_statements env sts (d1, p1)"
    using one(3) by (simp add: run_statements_def st assms(3))
  show ?case
  proof (cases "sql \<in> control_statements")
    case True
    then have "d1 = d"
      using assms(2) one(1,2) unfolding control_contract_def by (metis snd_conv)
    with Cons.IH [OF one(4)] True show ?thesis
      unfolding run by (simp add: without_control_def st)
  next
    case False
    with each_alone.next_alone [OF one(1,2) Cons.IH [OF one(4)]] show ?thesis
      unfolding run by (simp add: without_control_def st)
  qed
qed

section \<open>Property\<close>

text \<open>
  C10. Transactions fall apart behind the proxy: whatever queries a client sends, the databases end up
  as if every statement between \<open>BEGIN\<close> and \<open>COMMIT\<close> or \<open>ROLLBACK\<close> had been executed alone,
  outside a transaction block, in order and each on the backend it is routed to, and \<open>BEGIN\<close>,
  \<open>COMMIT\<close> and \<open>ROLLBACK\<close> had not been sent: a \<open>ROLLBACK\<close> undoes nothing, although the
  client is told that it was in a transaction. The pools are any that give out connections which
  are not in a transaction block.
\<close>

theorem transactions_fall_apart:
  assumes "pool_contract pl" and "control_contract pl" and "e_query env = pool_query pl" and "pl_ok pl p"
    and "\<forall>k. \<not> e_cancelled env k" and "inp c = concat (map query_message qs)" and "queries_ok qs"
  shows "\<exists>s' c' d' p'. client_loop env k s c (d, p) = Some (s', c', (d', p'))
    \<and> each_alone pl (without_control (zip (backends (e_upper env) s qs) qs)) d d'"
proof -
  let ?sts = "zip (backends (e_upper env) s qs) qs"
  obtain s' c' where "client_loop env k s c (d, p) = Some (s', c', run_statements env ?sts (d, p))"
    using client_loop_world [OF assms(5-7), of k s "(d, p)"] by blast
  with run_statements_alone [OF assms(1-4), of ?sts d] show ?thesis
    by (cases "run_statements env ?sts (d, p)") auto
qed

section \<open>A concrete instance\<close>

text \<open>A database that is the list of what has been committed. A connection is outside a block, or
  in one with what is pending; only the former are given out. On one and the same connection the
  \<open>ROLLBACK\<close> would undo the insertion.\<close>

definition toy_exec :: "backend \<Rightarrow> bytes \<Rightarrow> bytes list option \<Rightarrow> bytes list \<Rightarrow> (gerr + rows) \<times> bytes list option \<times> bytes list" where
  "toy_exec b sql c d =
     (Inl EOF,
      (if sql = ''BEGIN'' then (case c of None \<Rightarrow> (Some [], d) | Some xs \<Rightarrow> (Some xs, d))
       else if sql = ''COMMIT'' then (case c of None \<Rightarrow> (None, d) | Some xs \<Rightarrow> (None, d @ xs))
       else if sql = ''ROLLBACK'' then (None, d)
       else (case c of None \<Rightarrow> (None, d @ [sql]) | Some xs \<Rightarrow> (Some (xs @ [sql]), d))))"

definition toy_pools :: "(bytes list, unit, bytes list option) pools" where
  "toy_pools = \<lparr>pl_acquire = (\<lambda>b p. (None, p)), pl_exec = toy_exec, pl_release = (\<lambda>b c p. p),
     pl_ok = (\<lambda>p. True), pl_idle = (\<lambda>c. c = None)\<rparr>"

definition toy_env :: "(bytes list \<times> unit) env" where
  "toy_env = \<lparr>e_upper = id, e_query = pool_query toy_pools, e_cancelled = (\<lambda>_. False), e_fate = (\<lambda>_. None)\<rparr>"

theorem transactions_fall_apart_witness:
  "\<exists>s' c'. client_loop toy_env 0 new_session
      \<lparr>inp = query_message ''BEGIN'' @ query_message ''SELECT 1'' @ query_message ''ROLLBACK'', inp_end = EOF,
       out = [], writes = 0, closed = False\<rparr> ([], ())
    = Some (s', c', ([''SELECT 1''], ()))"
proof -
  let ?qs = "[''BEGIN'', ''SELECT 1'', ''ROLLBACK'']"
  have hyps: "pool_contract toy_pools" "control_contract toy_pools" "e_query toy_env = pool_query toy_pools"
      "pl_ok toy_pools ()" "\<forall>k. \<not> e_cancelled toy_env k"
    by (auto simp: pool_contract_def control_contract_def control_statements_def toy_pools_def toy_env_def toy_exec_def)
  have qs: "queries_ok ?qs"
    by (simp add: queries_ok_def)
  let ?c = "\<lparr>inp = query_message ''BEGIN'' @ query_message ''SELECT 1'' @ query_message ''ROLLBACK'', inp_end = EOF,
       out = [], writes = 0, closed = False\<rparr>"
  have inp: "inp ?c = concat (map query_message ?qs)"
    by simp
  obtain s' c' d' p' where run: "client_loop toy_env 0 new_session ?c ([], ()) = Some (s', c', (d', p'))"
    and alone: "each_alone toy_pools (without_control (zip (backends (e_upper toy_env) new_session ?qs) ?qs)) [] d'"
    using transactions_fall_apart [OF hyps inp qs] by blast
  obtain b1 b2 b3 where "backends (e_upper toy_env) new_session ?qs = [b1, b2, b3]"
    by (simp add: split_beta)
  with alone have "each_alone toy_pools [(b2, ''SELECT 1'')] [] d'"
    by (simp add: without_control_def control_statements_def)
  then have "d' = [''SELECT 1'']"
    by (auto elim!: each_alone.cases simp: toy_pools_def toy_exec_def)
  with run show ?thesis by simp
qed

end
