(* ===== verification/Event_Filter.thy ===== *)
theory Event_Filter
  imports Go_Strings "HOL-Library.List_Lexorder" "HOL-Library.Char_ord"
begin

text \<open>
  \<open>internal/cdc/event.go\<close> and \<open>internal/cdc/filter.go\<close>: the change event every sink
  receives, and the filter in front of the handler.

  A column value is Go's \<open>any\<close>: \<open>nil\<close>, a string the pipeline makes itself, or a value of
  a type codec of pgtype, which is not part of the repository and is left abstract as \<open>'v\<close>.
  A \<open>time.Time\<close> is the number of nanoseconds since Go's zero time, so that \<open>IsZero\<close> is
  being \<open>0\<close>. Go tells a \<open>nil\<close> map from an empty one, so maps are optional.
\<close>

section \<open>Events\<close>

type_synonym time = int

definition zero_time :: time where
  "zero_time = 0"

datatype 'v val = VNil | VString string | VCodec 'v

type_synonym 'v row = "string \<rightharpoonup> 'v val"

record 'v change_event =
  ev_action :: string
  ev_schema :: string
  ev_table :: string
  ev_new :: "'v row option"
  ev_old :: "'v row option"
  ev_timestamp :: time
  ev_lsn :: string
  ev_xid :: "32 word"

section \<open>The filter\<close>

record event_filter =
  flt_tables :: "string set option"
  flt_actions :: "string set option"

text \<open>The two loops of \<open>NewFilter\<close>: trim every item, drop the empty ones, insert the rest
  with the case folded by \<open>fold_case\<close>.\<close>

fun add_items :: "(string \<Rightarrow> string) \<Rightarrow> string list \<Rightarrow> string set \<Rightarrow> string set" where
  "add_items fold_case [] acc = acc"
| "add_items fold_case (t0 # ts) acc =
     (let t = trim_space t0 in
      add_items fold_case ts (if t \<noteq> [] then insert (fold_case t) acc else acc))"

definition new_filter :: "(nat \<Rightarrow> nat) \<Rightarrow> (nat \<Rightarrow> nat) \<Rightarrow> string \<Rightarrow> string \<Rightarrow> event_filter" where
  "new_filter up lo tables actions =
     \<lparr>flt_tables = (if tables \<noteq> [] then Some (add_items (to_lower lo) (split_on CHR '','' tables) {}) else None),
      flt_actions = (if actions \<noteq> [] then Some (add_items (to_upper up) (split_on CHR '','' actions) {}) else None)\<rparr>"

text \<open>Reading, ranging over and taking \<open>len\<close> of a \<open>nil\<close> map is as of an empty one.\<close>

definition keys :: "'k set option \<Rightarrow> 'k set" where
  "keys m = (case m of None \<Rightarrow> {} | Some s \<Rightarrow> s)"

definition matches :: "(nat \<Rightarrow> nat) \<Rightarrow> event_filter \<Rightarrow> 'v change_event \<Rightarrow> bool" where
  "matches lo f ev =
     (if keys (flt_actions f) \<noteq> {} \<and> ev_action ev \<notin> keys (flt_actions f) then False
      else if keys (flt_tables f) \<noteq> {} then
        (let table_lower = to_lower lo (ev_table ev);
             qualified_lower = to_lower lo (ev_schema ev @ ''.'' @ ev_table ev)
         in table_lower \<in> keys (flt_tables f) \<or> qualified_lower \<in> keys (flt_tables f))
      else True)"

text \<open>\<open>order\<close> is the order in which Go's \<open>range\<close> happens to visit the keys of a map.\<close>

definition table_list :: "(string set \<Rightarrow> string list) \<Rightarrow> event_filter \<Rightarrow> string list option" where
  "table_list order f =
     (if keys (flt_tables f) = {} then None else Some (order (keys (flt_tables f))))"

section \<open>Facts\<close>

text \<open>The items a comma-separated list names.\<close>

definition items :: "string \<Rightarrow> string list" where
  "items s = filter (\<lambda>t. t \<noteq> []) (map trim_space (split_on CHR '','' s))"

lemma add_items_eq:
  "add_items g ts acc = acc \<union> g ` set (filter (\<lambda>t. t \<noteq> []) (map trim_space ts))"
  by (induction ts arbitrary: acc) (auto simp: Let_def)

lemma trim_space_Nil [simp]: "trim_space [] = []"
  by (simp add: trim_space_def trim_right.simps)

lemma keys_new_filter:
  "keys (flt_tables (new_filter up lo tables actions)) = to_lower lo ` set (items tables)"
  "keys (flt_actions (new_filter up lo tables actions)) = to_upper up ` set (items actions)"
  by (simp_all add: new_filter_def keys_def items_def add_items_eq)

lemma matches_iff:
  "matches lo f ev \<longleftrightarrow>
     (keys (flt_actions f) = {} \<or> ev_action ev \<in> keys (flt_actions f))
     \<and> (keys (flt_tables f) = {} \<or> to_lower lo (ev_table ev) \<in> keys (flt_tables f)
        \<or> to_lower lo (ev_schema ev @ ''.'' @ ev_table ev) \<in> keys (flt_tables f))"
  by (auto simp: matches_def Let_def)

text \<open>Trimming removes nothing from a text with a solid byte at either end.\<close>

definition trimmed :: "string \<Rightarrow> bool" where
  "trimmed t \<longleftrightarrow> t \<noteq> [] \<and> solid (hd t) \<and> solid (last t)"

lemma trim_space_trimmed:
  assumes "trimmed t"
  shows "trim_space t = t"
proof (cases t)
  case Nil
  then show ?thesis by simp
next
  case (Cons c cs)
  have "trim_left t = t"
    using assms Cons by (simp add: trimmed_def)
  moreover obtain u where u: "t = u @ [last t]"
    using assms by (metis append_butlast_last_id trimmed_def)
  have "trim_right t = t"
    using trim_right_keep [of "last t" u "[]"] assms u by (auto simp: trimmed_def)
  ultimately show ?thesis
    by (simp add: trim_space_def)
qed

lemma items_join:
  assumes "\<forall>t \<in> set ts. trimmed t \<and> CHR '','' \<notin> set t"
  shows "items (join '','' ts) = ts"
proof (cases "ts = []")
  case True
  then show ?thesis by (simp add: items_def)
next
  case False
  have "map trim_space ts = ts"
    using assms by (simp add: map_idI trim_space_trimmed)
  moreover have "filter (\<lambda>t. t \<noteq> []) ts = ts"
    using assms by (simp add: trimmed_def)
  ultimately show ?thesis
    using split_on_join [OF False, of "CHR '',''"] assms by (simp add: items_def)
qed

section \<open>Properties\<close>

text \<open>
  C32. A filter made from comma-separated lists of table names and actions passes exactly the
  events whose action is listed (in any case) and whose table is listed, bare or qualified by
  its schema, compared without regard to case; an empty list restricts nothing.
\<close>

theorem new_filter_matches:
  assumes "\<forall>t \<in> set ts. trimmed t \<and> CHR '','' \<notin> set t"
    and "\<forall>a \<in> set as. trimmed a \<and> CHR '','' \<notin> set a"
  shows "matches lo (new_filter up lo (join '','' ts) (join '','' as)) ev \<longleftrightarrow>
    (as = [] \<or> (\<exists>a \<in> set as. to_upper up a = ev_action ev))
    \<and> (ts = [] \<or> (\<exists>t \<in> set ts. to_lower lo t = to_lower lo (ev_table ev)
          \<or> to_lower lo t = to_lower lo (ev_schema ev @ ''.'' @ ev_table ev)))"
proof -
  have member: "x \<in> f ` set xs \<longleftrightarrow> (\<exists>y \<in> set xs. f y = x)" for f :: "string \<Rightarrow> string" and x xs
    by auto
  show ?thesis
    by (simp only: matches_iff keys_new_filter items_join [OF assms(1)] items_join [OF assms(2)] member
        image_is_empty set_empty bex_disj_distrib)
qed

theorem new_filter_matches_witness:
  "matches id (new_filter id id (join '','' [''users'', ''public.Orders'']) (join '','' [''insert'']))
    \<lparr>ev_action = ''INSERT'', ev_schema = ''public'', ev_table = ''orders'', ev_new = None :: nat row option,
     ev_old = None, ev_timestamp = 0, ev_lsn = [], ev_xid = 0\<rparr>"
proof -
  have low: "to_lower id ''public.Orders'' = to_lower id (''public'' @ ''.'' @ ''orders'')"
    by (simp add: to_lower_ascii ascii_lower_def rune_lower_def byte_of_eq_iff)
  have up: "to_upper id ''insert'' = ''INSERT''"
    by (simp add: to_upper_ascii ascii_upper_def rune_upper_def byte_of_eq_iff)
  have "\<forall>t \<in> set [''users'', ''public.Orders'']. trimmed t \<and> CHR '','' \<notin> set t"
    "\<forall>t \<in> set [''insert'']. trimmed t \<and> CHR '','' \<notin> set t"
    by (simp_all add: trimmed_def solid_def ascii_space_def)
  from new_filter_matches [OF this, of id id "\<lparr>ev_action = ''INSERT'', ev_schema = ''public'',
      ev_table = ''orders'', ev_new = None :: nat row option, ev_old = None, ev_timestamp = 0, ev_lsn = [],
      ev_xid = 0\<rparr>"] low up
  show ?thesis
    by simp
qed

lemma to_lower_upper_ascii: "all_ascii s \<Longrightarrow> to_lower lo (map ascii_upper s) = to_lower lo s"
proof -
  assume a: "all_ascii s"
  then have "all_ascii (map ascii_upper s)"
    by (auto simp: all_ascii_def ascii_upper_ascii)
  then show ?thesis
    using a by (simp add: to_lower_ascii)
      (auto simp: ascii_lower_def ascii_upper_def rune_lower_def rune_upper_def all_ascii_def)
qed

text \<open>
  The list handed to \<open>CREATE PUBLICATION\<close> is absent when no table is named; otherwise it
  is, in whatever order the map is visited, the lower-case form of exactly the named tables,
  each once, and an event of a table passes the filter's table check exactly when the list has
  its lower-case name, bare or qualified.
\<close>

theorem table_list_agrees:
  assumes "\<And>K. finite K \<Longrightarrow> set (order K) = K \<and> distinct (order K)"
  shows "case table_list order (new_filter up lo tables []) of
      None \<Rightarrow> items tables = [] \<and> matches lo (new_filter up lo tables []) ev
    | Some ts \<Rightarrow> distinct ts \<and> set ts = to_lower lo ` set (items tables)
        \<and> (matches lo (new_filter up lo tables []) ev \<longleftrightarrow>
            to_lower lo (ev_table ev) \<in> set ts \<or> to_lower lo (ev_schema ev @ ''.'' @ ev_table ev) \<in> set ts)"
proof (cases "items tables = []")
  case True
  then show ?thesis
    by (simp add: table_list_def matches_iff keys_new_filter) (simp add: items_def)
next
  case False
  let ?K = "to_lower lo ` set (items tables)"
  have "set (order ?K) = ?K" and "distinct (order ?K)"
    using assms [of ?K] by simp_all
  with False show ?thesis
    by (simp add: table_list_def matches_iff keys_new_filter) (simp add: items_def)
qed

theorem table_list_agrees_witness:
  "table_list sorted_list_of_set (new_filter id id ''users'' []) = Some [''users'']"
proof -
  have order: "set (sorted_list_of_set K) = K \<and> distinct (sorted_list_of_set K)" if "finite K" for K :: "string set"
    using that by simp
  have ts: "items ''users'' = [''users'']"
    using items_join [of "[''users'']"] by (simp add: trimmed_def solid_def ascii_space_def)
  have low: "to_lower id ''users'' = ''users''"
    by (simp add: to_lower_ascii ascii_lower_def rune_lower_def byte_of_eq_iff all_ascii_def)
  show ?thesis
    using table_list_agrees [where order = sorted_list_of_set and up = id and lo = id and tables = "''users''", OF order] ts low
    by (auto split: option.splits simp: table_list_def keys_new_filter)
qed

end
