(* ===== verification/Wal_Stream.thy ===== *)
theory Wal_Stream
  imports Event_Filter
begin

text \<open>
  \<open>internal/cdc/stream.go\<close>: decoding of pgoutput messages into change events, their
  delivery, the message loop with its acknowledgments, and the set-up of a stream.

  pglogrepl, pgconn and pgtype are not part of the repository. Their message types are the
  datatypes below, with the members the code reads; what they compute (parsing, the text of an
  LSN, the codecs of a type) and what the server answers are parameters: the record \<open>lib\<close>,
  the \<open>tick\<close>s of the loop and the record \<open>server\<close>. A pointer that may be \<open>nil\<close> is an option.
\<close>

section \<open>Messages\<close>

type_synonym lsn = "64 word"

record tuple_column =
  tc_kind :: char
  tc_data :: bytes

record rel_column =
  rc_name :: string
  rc_oid :: "32 word"

record rel_msg =
  rel_id :: "32 word"
  rel_namespace :: string
  rel_name :: string
  rel_columns :: "rel_column list"

type_synonym tuple_data = "tuple_column list"

datatype pg_message =
    BeginMessage "32 word" time
  | CommitMessage
  | RelationMessage rel_msg
  | InsertMessage "32 word" "tuple_data option"
  | UpdateMessage "32 word" "tuple_data option" "tuple_data option"
  | DeleteMessage "32 word" "tuple_data option"
  | TruncateMessage "32 word"
  | OtherMessage

record xlog_data =
  xl_start :: lsn
  xl_data :: bytes

datatype format_code = TextFormat | BinaryFormat

text \<open>What the libraries compute. \<open>lib_codec oid\<close> is \<open>TypeForOID\<close> and the \<open>DecodeValue\<close> of
  the codec found; \<open>lib_keepalive\<close> keeps only \<open>ReplyRequested\<close>; \<open>lib_lower\<close> and
  \<open>lib_printable\<close> are the unicode tables of \<open>strings.ToLower\<close> and \<open>%q\<close>.\<close>

record 'v lib =
  lib_parse :: "bytes \<Rightarrow> gerr + pg_message"
  lib_xlog :: "bytes \<Rightarrow> gerr + xlog_data"
  lib_keepalive :: "bytes \<Rightarrow> gerr + bool"
  lib_lsn_string :: "lsn \<Rightarrow> string"
  lib_parse_lsn :: "string \<Rightarrow> gerr + lsn"
  lib_codec :: "32 word \<Rightarrow> (format_code \<Rightarrow> bytes \<Rightarrow> gerr + 'v) option"
  lib_lower :: "nat \<Rightarrow> nat"
  lib_printable :: "nat \<Rightarrow> bool"

text \<open>The handler is called for its effect: it takes the state of whatever is behind it to the
  next one and gives \<open>nil\<close> or an error.\<close>

type_synonym ('h, 'v) handler = "'h \<Rightarrow> 'v change_event \<Rightarrow> 'h \<times> gerr option"

record stream =
  st_repl_conn :: string
  st_normal_conn :: string
  st_slot :: string
  st_publication :: string
  st_filter :: event_filter
  st_relations :: "32 word \<rightharpoonup> rel_msg"
  st_start_override :: string
  st_xid :: "32 word"
  st_commit_time :: time

definition new_stream :: "string \<Rightarrow> string \<Rightarrow> string \<Rightarrow> event_filter \<Rightarrow> stream" where
  "new_stream conn_str slot publication flt =
     (let sep = (if contains ''?'' conn_str then ''&'' else ''?'')
      in \<lparr>st_repl_conn = conn_str @ sep @ ''replication=database'', st_normal_conn = conn_str,
          st_slot = slot, st_publication = publication, st_filter = flt, st_relations = Map.empty,
          st_start_override = [], st_xid = 0, st_commit_time = zero_time\<rparr>)"

definition set_start_lsn :: "string \<Rightarrow> stream \<Rightarrow> stream" where
  "set_start_lsn l st = st\<lparr>st_start_override := l\<rparr>"

section \<open>Tuples\<close>

definition decode_text_column :: "'v lib \<Rightarrow> bytes \<Rightarrow> 32 word \<Rightarrow> gerr + 'v val" where
  "decode_text_column L data oid =
     (case lib_codec L oid of
        None \<Rightarrow> Inr (VString data)
      | Some decode \<Rightarrow> (case decode TextFormat data of Inl e \<Rightarrow> Inl e | Inr v \<Rightarrow> Inr (VCodec v)))"

definition decode_binary_column :: "'v lib \<Rightarrow> bytes \<Rightarrow> 32 word \<Rightarrow> gerr + 'v val" where
  "decode_binary_column L data oid =
     (case lib_codec L oid of
        None \<Rightarrow> Inl (ErrMsg (''unknown OID '' @ decimal (unat oid)))
      | Some decode \<Rightarrow> (case decode BinaryFormat data of Inl e \<Rightarrow> Inl e | Inr v \<Rightarrow> Inr (VCodec v)))"

text \<open>The \<open>switch\<close> in the body of the loop of \<open>decodeTuple\<close>.\<close>

definition store_column :: "'v lib \<Rightarrow> tuple_column \<Rightarrow> rel_column \<Rightarrow> 'v row \<Rightarrow> 'v row" where
  "store_column L col col_def vals =
     (if tc_kind col = CHR ''n'' then vals(rc_name col_def \<mapsto> VNil)
      else if tc_kind col = CHR ''u'' then vals
      else if tc_kind col = CHR ''t'' then
        vals(rc_name col_def \<mapsto>
          (case decode_text_column L (tc_data col) (rc_oid col_def) of
             Inl _ \<Rightarrow> VString (tc_data col)
           | Inr v \<Rightarrow> v))
      else if tc_kind col = CHR ''b'' then
        vals(rc_name col_def \<mapsto>
          (case decode_binary_column L (tc_data col) (rc_oid col_def) of
             Inl _ \<Rightarrow> VString (''(binary '' @ decimal (length (tc_data col)) @ '' bytes)'')
           | Inr v \<Rightarrow> v))
      else vals)"

text \<open>The loop; \<open>rel.Columns[i]\<close> panics when the tuple is longer than the relation.\<close>

fun decode_columns :: "'v lib \<Rightarrow> tuple_column list \<Rightarrow> rel_column list \<Rightarrow> 'v row \<Rightarrow> 'v row option" where
  "decode_columns L [] defs vals = Some vals"
| "decode_columns L (col # cols) [] vals = None"
| "decode_columns L (col # cols) (col_def # defs) vals =
     decode_columns L cols defs (store_column L col col_def vals)"

definition decode_tuple :: "'v lib \<Rightarrow> tuple_data option \<Rightarrow> rel_msg \<Rightarrow> 'v row option option" where
  "decode_tuple L tuple rel =
     (case tuple of
        None \<Rightarrow> Some None
      | Some cols \<Rightarrow> (case decode_columns L cols (rel_columns rel) Map.empty of
            None \<Rightarrow> None
          | Some vals \<Rightarrow> Some (Some vals)))"

section \<open>One message\<close>

definition deliver_if_match ::
    "'v lib \<Rightarrow> ('h, 'v) handler \<Rightarrow> stream \<Rightarrow> 'v change_event \<Rightarrow> 'h \<Rightarrow> 'h \<times> gerr option" where
  "deliver_if_match L handle st ev h =
     (if \<not> matches (lib_lower L) (st_filter st) ev then (h, None)
      else case handle h ev of
          (h', Some e) \<Rightarrow> (h', Some (Wrapped (''handler '' @ ev_action ev @ '': '') e))
        | (h', None) \<Rightarrow> (h', None))"

definition unknown_relation :: "32 word \<Rightarrow> gerr" where
  "unknown_relation i = ErrMsg (''unknown relation '' @ decimal (unat i))"

text \<open>The event of a row message; the caller gives the action, the relation and the two maps.\<close>

definition row_event ::
    "'v lib \<Rightarrow> stream \<Rightarrow> lsn \<Rightarrow> string \<Rightarrow> rel_msg \<Rightarrow> 'v row option \<Rightarrow> 'v row option \<Rightarrow> 'v change_event" where
  "row_event L st start action rel new_row old_row =
     \<lparr>ev_action = action, ev_schema = rel_namespace rel, ev_table = rel_name rel,
      ev_new = new_row, ev_old = old_row, ev_timestamp = st_commit_time st,
      ev_lsn = lib_lsn_string L start, ev_xid = st_xid st\<rparr>"

definition process_message ::
    "'v lib \<Rightarrow> ('h, 'v) handler \<Rightarrow> xlog_data \<Rightarrow> stream \<Rightarrow> 'h \<Rightarrow> (stream \<times> 'h \<times> gerr option) option" where
  "process_message L handle x st h =
     (case lib_parse L (xl_data x) of
        Inl e \<Rightarrow> Some (st, h, Some (Wrapped ''parse pgoutput: '' e))
      | Inr msg \<Rightarrow> (case msg of
            BeginMessage xid t \<Rightarrow> Some (st\<lparr>st_xid := xid, st_commit_time := t\<rparr>, h, None)
          | CommitMessage \<Rightarrow> Some (st\<lparr>st_xid := 0, st_commit_time := zero_time\<rparr>, h, None)
          | RelationMessage m \<Rightarrow>
              Some (st\<lparr>st_relations := (st_relations st)(rel_id m \<mapsto> m)\<rparr>, h, None)
          | InsertMessage i tuple \<Rightarrow> (case st_relations st i of
                None \<Rightarrow> Some (st, h, Some (unknown_relation i))
              | Some rel \<Rightarrow> do {
                  new_row \<leftarrow> decode_tuple L tuple rel;
                  Some (st, deliver_if_match L handle st
                    (row_event L st (xl_start x) ''INSERT'' rel new_row None) h) })
          | UpdateMessage i old_tuple new_tuple \<Rightarrow> (case st_relations st i of
                None \<Rightarrow> Some (st, h, Some (unknown_relation i))
              | Some rel \<Rightarrow> do {
                  new_row \<leftarrow> decode_tuple L new_tuple rel;
                  old_row \<leftarrow> (if old_tuple \<noteq> None then decode_tuple L old_tuple rel else Some None);
                  Some (st, deliver_if_match L handle st
                    (row_event L st (xl_start x) ''UPDATE'' rel new_row old_row) h) })
          | DeleteMessage i old_tuple \<Rightarrow> (case st_relations st i of
                None \<Rightarrow> Some (st, h, Some (unknown_relation i))
              | Some rel \<Rightarrow> do {
                  old_row \<leftarrow> decode_tuple L old_tuple rel;
                  Some (st, deliver_if_match L handle st
                    (row_event L st (xl_start x) ''DELETE'' rel None old_row) h) })
          | TruncateMessage n \<Rightarrow> Some (st, h, None)
          | OtherMessage \<Rightarrow> Some (st, h, None)))"

section \<open>The message loop\<close>

text \<open>One round of the loop sees: whether the context is cancelled, the clock, the outcome of
  the periodic acknowledgment and the clock after it, what \<open>ReceiveMessage\<close> gives (an error
  with \<open>pgconn.Timeout\<close> of it and whether the context is cancelled by then, a message of
  another kind, or the bytes of a \<open>CopyData\<close>), and the outcome of a keepalive reply.\<close>

datatype received = RecvError gerr bool bool | RecvOther | RecvCopy bytes

record tick =
  tk_cancelled :: bool
  tk_now :: time
  tk_ack :: "gerr option"
  tk_after_ack :: time
  tk_recv :: received
  tk_reply :: "gerr option"

text \<open>The variables of the loop, and the positions handed to \<open>SendStandbyStatusUpdate\<close> so far,
  also those whose sending failed.\<close>

record loop_state =
  lp_received :: lsn
  lp_acked :: lsn
  lp_next :: time
  lp_sent :: "lsn list"

datatype outcome = Continue | Return "gerr option" | Panic

definition ack_interval :: time where
  "ack_interval = 10 * 10 ^ 9"

text \<open>\<open>sendAck\<close> sends the same position three times, as written, flushed and applied.\<close>

definition send_ack :: "lsn \<Rightarrow> loop_state \<Rightarrow> loop_state" where
  "send_ack l lp = lp\<lparr>lp_sent := lp_sent lp @ [l + 1]\<rparr>"

definition periodic_ack :: "tick \<Rightarrow> loop_state \<Rightarrow> loop_state \<times> gerr option" where
  "periodic_ack tk lp =
     (if tk_now tk > lp_next lp \<and> lp_received lp > lp_acked lp then
        (let lp' = send_ack (lp_received lp) lp
         in case tk_ack tk of
              Some e \<Rightarrow> (lp', Some (Wrapped ''ack: '' e))
            | None \<Rightarrow> (lp'\<lparr>lp_acked := lp_received lp, lp_next := tk_after_ack tk + ack_interval\<rparr>, None))
      else (lp, None))"

text \<open>The \<open>switch\<close> on the first byte of a \<open>CopyData\<close>: \<open>k\<close> a keepalive, \<open>w\<close> WAL data.\<close>

definition copy_data ::
    "'v lib \<Rightarrow> ('h, 'v) handler \<Rightarrow> gerr option \<Rightarrow> bytes \<Rightarrow> stream \<Rightarrow> 'h \<Rightarrow> loop_state
      \<Rightarrow> (stream \<times> 'h \<times> loop_state) \<times> outcome" where
  "copy_data L handle reply data st h lp =
     (case data of
        [] \<Rightarrow> ((st, h, lp), Panic)
      | tag # body \<Rightarrow>
          if tag = CHR ''k'' then
            (case lib_keepalive L body of
               Inl e \<Rightarrow> ((st, h, lp), Return (Some (Wrapped ''parse keepalive: '' e)))
             | Inr reply_requested \<Rightarrow>
                 if reply_requested then
                   (case reply of
                      Some e \<Rightarrow> ((st, h, send_ack (lp_received lp) lp), Return (Some (Wrapped ''keepalive reply: '' e)))
                    | None \<Rightarrow> ((st, h, send_ack (lp_received lp) lp), Continue))
                 else ((st, h, lp), Continue))
          else if tag = CHR ''w'' then
            (case lib_xlog L body of
               Inl e \<Rightarrow> ((st, h, lp), Return (Some (Wrapped ''parse xlogdata: '' e)))
             | Inr x \<Rightarrow>
                 (let lp' = lp\<lparr>lp_received := xl_start x + of_nat (length (xl_data x))\<rparr>
                  in case process_message L handle x st h of
                       None \<Rightarrow> ((st, h, lp'), Panic)
                     | Some (st', h', Some e) \<Rightarrow> ((st', h', lp'), Return (Some (Wrapped ''process message: '' e)))
                     | Some (st', h', None) \<Rightarrow> ((st', h', lp'), Continue)))
          else ((st, h, lp), Continue))"

definition loop_step ::
    "'v lib \<Rightarrow> ('h, 'v) handler \<Rightarrow> tick \<Rightarrow> stream \<times> 'h \<times> loop_state
      \<Rightarrow> (stream \<times> 'h \<times> loop_state) \<times> outcome" where
  "loop_step L handle tk c =
     (case c of (st, h, lp) \<Rightarrow>
        if tk_cancelled tk then ((st, h, lp), Return None)
        else (case periodic_ack tk lp of
            (lp', Some e) \<Rightarrow> ((st, h, lp'), Return (Some e))
          | (lp', None) \<Rightarrow> (case tk_recv tk of
                RecvError e timeout cancelled \<Rightarrow>
                  if timeout then ((st, h, lp'), Continue)
                  else if cancelled then ((st, h, lp'), Return None)
                  else ((st, h, lp'), Return (Some (Wrapped ''receive: '' e)))
              | RecvOther \<Rightarrow> ((st, h, lp'), Continue)
              | RecvCopy data \<Rightarrow> copy_data L handle (tk_reply tk) data st h lp')))"

text \<open>The loop over the rounds that happen; \<open>Continue\<close> at the end: it is still running.\<close>

fun run_loop ::
    "'v lib \<Rightarrow> ('h, 'v) handler \<Rightarrow> tick list \<Rightarrow> stream \<times> 'h \<times> loop_state
      \<Rightarrow> (stream \<times> 'h \<times> loop_state) \<times> outcome" where
  "run_loop L handle [] c = (c, Continue)"
| "run_loop L handle (tk # tks) c =
     (case loop_step L handle tk c of
        (c', Continue) \<Rightarrow> run_loop L handle tks c'
      | (c', r) \<Rightarrow> (c', r))"

definition start_loop :: "time \<Rightarrow> loop_state" where
  "start_loop now = \<lparr>lp_received = 0, lp_acked = 0, lp_next = now + ack_interval, lp_sent = []\<rparr>"

text \<open>The deferred function runs on every return, and when a panic unwinds the stack. What it
  sends is not changed by its outcome, which is only logged.\<close>

definition final_ack :: "loop_state \<Rightarrow> loop_state" where
  "final_ack lp = (if lp_received lp > lp_acked lp then send_ack (lp_received lp) lp else lp)"

definition message_loop ::
    "'v lib \<Rightarrow> ('h, 'v) handler \<Rightarrow> time \<Rightarrow> tick list \<Rightarrow> stream \<Rightarrow> 'h
      \<Rightarrow> (stream \<times> 'h \<times> loop_state) \<times> outcome" where
  "message_loop L handle now tks st h =
     (case run_loop L handle tks (st, h, start_loop now) of
        (c, Continue) \<Rightarrow> (c, Continue)
      | ((st', h', lp), r) \<Rightarrow> ((st', h', final_ack lp), r))"

section \<open>Tuples: facts\<close>

text \<open>What one column of a tuple contributes; \<open>None\<close> for a value that was not sent.\<close>

definition sent_value :: "'v lib \<Rightarrow> tuple_column \<Rightarrow> 32 word \<Rightarrow> 'v val option" where
  "sent_value L col oid =
     (if tc_kind col = CHR ''n'' then Some VNil
      else if tc_kind col = CHR ''t'' then
        Some (case lib_codec L oid of
            None \<Rightarrow> VString (tc_data col)
          | Some decode \<Rightarrow> (case decode TextFormat (tc_data col) of
                Inl _ \<Rightarrow> VString (tc_data col) | Inr v \<Rightarrow> VCodec v))
      else if tc_kind col = CHR ''b'' then
        Some (case lib_codec L oid of
            None \<Rightarrow> VString (''(binary '' @ decimal (length (tc_data col)) @ '' bytes)'')
          | Some decode \<Rightarrow> (case decode BinaryFormat (tc_data col) of
                Inl _ \<Rightarrow> VString (''(binary '' @ decimal (length (tc_data col)) @ '' bytes)'')
              | Inr v \<Rightarrow> VCodec v))
      else None)"

lemma store_column_eq:
  "store_column L col d vals =
     (case sent_value L col (rc_oid d) of None \<Rightarrow> vals | Some v \<Rightarrow> vals(rc_name d \<mapsto> v))"
  by (simp add: store_column_def sent_value_def decode_text_column_def decode_binary_column_def
      split: option.split sum.split)

lemma decode_columns_None: "decode_columns L cols defs vals = None \<longleftrightarrow> length cols > length defs"
  by (induction L cols defs vals rule: decode_columns.induct) auto

lemma decode_columns_other:
  assumes "decode_columns L cols defs vals = Some row"
    and "n \<notin> rc_name ` set (take (length cols) defs)"
  shows "row n = vals n"
  using assms
  by (induction L cols defs vals rule: decode_columns.induct)
    (auto simp: store_column_eq split: option.splits)

lemma decode_columns_nth:
  assumes "decode_columns L cols defs vals = Some row" and "distinct (map rc_name defs)"
    and "i < length cols"
  shows "row (rc_name (defs ! i)) =
    (case sent_value L (cols ! i) (rc_oid (defs ! i)) of
       None \<Rightarrow> vals (rc_name (defs ! i)) | Some v \<Rightarrow> Some v)"
  using assms
proof (induction L cols defs vals arbitrary: i rule: decode_columns.induct)
  case (3 L col cols d defs vals)
  from "3.prems"(2) have fresh: "rc_name d \<notin> rc_name ` set defs"
    by simp
  show ?case
  proof (cases i)
    case 0
    have "rc_name d \<notin> rc_name ` set (take (length cols) defs)"
      using fresh by (auto dest: in_set_takeD)
    with "3.prems"(1) have "row (rc_name d) = store_column L col d vals (rc_name d)"
      by (auto dest: decode_columns_other)
    with 0 show ?thesis
      by (simp add: store_column_eq split: option.split)
  next
    case (Suc j)
    have "j < length defs"
      using "3.prems"(1,3) Suc decode_columns_None [of L cols defs "store_column L col d vals"] by auto
    then have "rc_name (defs ! j) \<noteq> rc_name d"
      using fresh by (metis imageI nth_mem)
    with "3.IH" [of j] "3.prems" Suc show ?thesis
      by (simp add: store_column_eq split: option.splits)
  qed
qed simp_all

text \<open>The row a tuple stands for, when its columns have distinct names.\<close>

definition tuple_row :: "'v lib \<Rightarrow> tuple_column list \<Rightarrow> rel_column list \<Rightarrow> 'v row" where
  "tuple_row L cols defs =
     (\<lambda>n. case map_of (zip (map rc_name (take (length cols) defs)) (zip cols (map rc_oid defs))) n of
        None \<Rightarrow> None | Some (col, oid) \<Rightarrow> sent_value L col oid)"

lemma decode_columns_row:
  assumes "distinct (map rc_name defs)" and "length cols \<le> length defs"
  shows "decode_columns L cols defs Map.empty = Some (tuple_row L cols defs)"
proof -
  obtain row where row: "decode_columns L cols defs Map.empty = Some row"
    using assms(2) decode_columns_None [of L cols defs Map.empty] by fastforce
  have "row n = tuple_row L cols defs n" for n
  proof (cases "n \<in> rc_name ` set (take (length cols) defs)")
    case True
    then obtain i where i: "i < length cols" "i < length defs" and n: "n = rc_name (defs ! i)"
      by (auto simp: in_set_conv_nth)
    let ?zs = "zip (map rc_name (take (length cols) defs)) (zip cols (map rc_oid defs))"
    have "distinct (map fst ?zs)"
      using assms by (simp add: distinct_take flip: take_map)
    moreover have "(n, cols ! i, rc_oid (defs ! i)) \<in> set ?zs"
      using i assms(2) by (auto simp: in_set_conv_nth n intro!: exI [of _ i])
    ultimately have "map_of ?zs n = Some (cols ! i, rc_oid (defs ! i))"
      by simp
    with decode_columns_nth [OF row assms(1) i(1)] show ?thesis
      by (simp add: tuple_row_def n split: option.split)
  next
    case False
    with assms(2) have none: "map_of (zip (map rc_name (take (length cols) defs)) (zip cols (map rc_oid defs))) n = None"
      by (simp add: map_of_zip_is_None)
    show ?thesis
      unfolding tuple_row_def none using decode_columns_other [OF row False] by simp
  qed
  with row show ?thesis
    by (simp add: fun_eq_iff [symmetric]) auto
qed

section \<open>What a stretch of WAL says\<close>

text \<open>The reading of the WAL the stream is to implement: every row message stands for one
  event, with the relation announced last for its identifier and the transaction of the last
  \<open>BEGIN\<close> not yet committed. \<open>None\<close> where the message cannot be read: the relation was not
  announced, or a tuple has more columns than it.\<close>

record wal_context =
  wc_relations :: "32 word \<rightharpoonup> rel_msg"
  wc_xid :: "32 word"
  wc_time :: time

definition wal_row :: "'v lib \<Rightarrow> rel_msg \<Rightarrow> tuple_data option \<Rightarrow> 'v row option option" where
  "wal_row L rel t =
     (case t of
        None \<Rightarrow> Some None
      | Some cols \<Rightarrow> if length cols \<le> length (rel_columns rel)
          then Some (Some (tuple_row L cols (rel_columns rel))) else None)"

definition wal_event ::
    "'v lib \<Rightarrow> wal_context \<Rightarrow> lsn \<Rightarrow> string \<Rightarrow> 32 word \<Rightarrow> tuple_data option \<Rightarrow> tuple_data option
      \<Rightarrow> 'v change_event list option" where
  "wal_event L wc l action i new_tuple old_tuple = do {
     rel \<leftarrow> wc_relations wc i;
     new_row \<leftarrow> wal_row L rel new_tuple;
     old_row \<leftarrow> wal_row L rel old_tuple;
     Some [\<lparr>ev_action = action, ev_schema = rel_namespace rel, ev_table = rel_name rel,
            ev_new = new_row, ev_old = old_row, ev_timestamp = wc_time wc,
            ev_lsn = lib_lsn_string L l, ev_xid = wc_xid wc\<rparr>] }"

fun wal_step :: "'v lib \<Rightarrow> wal_context \<Rightarrow> lsn \<times> pg_message \<Rightarrow> (wal_context \<times> 'v change_event list) option" where
  "wal_step L wc (l, BeginMessage xid t) = Some (wc\<lparr>wc_xid := xid, wc_time := t\<rparr>, [])"
| "wal_step L wc (l, CommitMessage) = Some (wc\<lparr>wc_xid := 0, wc_time := zero_time\<rparr>, [])"
| "wal_step L wc (l, RelationMessage m) =
     Some (wc\<lparr>wc_relations := (wc_relations wc)(rel_id m \<mapsto> m)\<rparr>, [])"
| "wal_step L wc (l, InsertMessage i t) = map_option (Pair wc) (wal_event L wc l ''INSERT'' i t None)"
| "wal_step L wc (l, UpdateMessage i old_t t) = map_option (Pair wc) (wal_event L wc l ''UPDATE'' i t old_t)"
| "wal_step L wc (l, DeleteMessage i old_t) = map_option (Pair wc) (wal_event L wc l ''DELETE'' i None old_t)"
| "wal_step L wc (l, TruncateMessage n) = Some (wc, [])"
| "wal_step L wc (l, OtherMessage) = Some (wc, [])"

fun wal_events ::
    "'v lib \<Rightarrow> wal_context \<Rightarrow> (lsn \<times> pg_message) list \<Rightarrow> (wal_context \<times> 'v change_event list) option" where
  "wal_events L wc [] = Some (wc, [])"
| "wal_events L wc (m # ms) = do {
     (wc1, evs) \<leftarrow> wal_step L wc m;
     (wc2, evs') \<leftarrow> wal_events L wc1 ms;
     Some (wc2, evs @ evs') }"

text \<open>Handing a list of events over, up to the first error.\<close>

fun deliver_all :: "('h, 'v) handler \<Rightarrow> 'v change_event list \<Rightarrow> 'h \<Rightarrow> 'h \<times> gerr option" where
  "deliver_all handle [] h = (h, None)"
| "deliver_all handle (ev # evs) h =
     (case handle h ev of
        (h', None) \<Rightarrow> deliver_all handle evs h'
      | (h', Some e) \<Rightarrow> (h', Some (Wrapped (''handler '' @ ev_action ev @ '': '') e)))"

lemma deliver_all_append:
  "deliver_all handle (evs @ evs') h =
     (case deliver_all handle evs h of
        (h', None) \<Rightarrow> deliver_all handle evs' h' | (h', Some e) \<Rightarrow> (h', Some e))"
  by (induction evs arbitrary: h) (auto split: prod.split option.split)

text \<open>A stream has the context its state says, and announced relations have distinct columns.\<close>

definition stream_context :: "stream \<Rightarrow> wal_context" where
  "stream_context st =
     \<lparr>wc_relations = st_relations st, wc_xid = st_xid st, wc_time = st_commit_time st\<rparr>"

definition relations_ok :: "(32 word \<rightharpoonup> rel_msg) \<Rightarrow> bool" where
  "relations_ok rels \<longleftrightarrow> (\<forall>i rel. rels i = Some rel \<longrightarrow> distinct (map rc_name (rel_columns rel)))"

fun message_ok :: "pg_message \<Rightarrow> bool" where
  "message_ok (RelationMessage m) = distinct (map rc_name (rel_columns m))"
| "message_ok _ = True"

lemma decode_tuple_row:
  assumes "distinct (map rc_name (rel_columns rel))"
  shows "decode_tuple L t rel = wal_row L rel t"
proof (cases t)
  case None
  then show ?thesis by (simp add: decode_tuple_def wal_row_def)
next
  case (Some cols)
  then show ?thesis
    using decode_columns_None [of L cols "rel_columns rel" Map.empty]
      decode_columns_row [OF assms, of cols L]
    by (cases "length cols \<le> length (rel_columns rel)") (auto simp: decode_tuple_def wal_row_def)
qed

lemma deliver_if_match_all:
  "deliver_if_match L handle st ev h = deliver_all handle (filter (matches (lib_lower L) (st_filter st)) [ev]) h"
  by (auto simp: deliver_if_match_def split: prod.split option.split)

definition with_context :: "wal_context \<Rightarrow> stream \<Rightarrow> stream" where
  "with_context wc st =
     st\<lparr>st_relations := wc_relations wc, st_xid := wc_xid wc, st_commit_time := wc_time wc\<rparr>"

lemma with_context [simp]:
  "stream_context (with_context wc st) = wc" "with_context (stream_context st) st = st"
  "st_filter (with_context wc st) = st_filter st"
  "with_context wc (with_context wc' st) = with_context wc st"
  by (simp_all add: with_context_def stream_context_def)

lemma process_message_wal_step:
  assumes "lib_parse L (xl_data x) = Inr m" and "wal_step L (stream_context st) (xl_start x, m) = Some (wc', evs)"
    and "relations_ok (st_relations st)"
  shows "process_message L handle x st h =
      Some (with_context wc' st, deliver_all handle (filter (matches (lib_lower L) (st_filter st)) evs) h)"
proof -
  have rel: "st_relations st i = Some rel \<Longrightarrow> decode_tuple L t rel = wal_row L rel t" for i rel t
    using assms(3) by (intro decode_tuple_row) (auto simp: relations_ok_def)
  have none: "wal_row L rel None = Some None" for rel
    by (simp add: wal_row_def)
  show ?thesis
    using assms(1,2)
    by (cases m)
      (auto simp: process_message_def stream_context_def with_context_def wal_event_def row_event_def rel none
        deliver_if_match_all bind_eq_Some_conv split: option.splits)
qed

lemma wal_step_relations_ok:
  assumes "wal_step L wc (l, m) = Some (wc', evs)" and "relations_ok (wc_relations wc)" and "message_ok m"
  shows "relations_ok (wc_relations wc')"
  using assms by (cases m) (auto simp: relations_ok_def split: if_splits)

section \<open>The loop: facts\<close>

text \<open>A round in which nothing goes wrong on the connection: it may time out, carry a keepalive
  or WAL data, and acknowledgments go through.\<close>

definition quiet_tick :: "'v lib \<Rightarrow> tick \<Rightarrow> bool" where
  "quiet_tick L tk \<longleftrightarrow> \<not> tk_cancelled tk \<and> tk_ack tk = None \<and> tk_reply tk = None
     \<and> (case tk_recv tk of
          RecvError e timeout cancelled \<Rightarrow> timeout
        | RecvOther \<Rightarrow> True
        | RecvCopy [] \<Rightarrow> False
        | RecvCopy (tag # body) \<Rightarrow>
            (tag = CHR ''k'' \<longrightarrow> (case lib_keepalive L body of Inl e \<Rightarrow> False | Inr r \<Rightarrow> True))
            \<and> (tag = CHR ''w'' \<longrightarrow> (case lib_xlog L body of
                  Inl e \<Rightarrow> False
                | Inr x \<Rightarrow> (case lib_parse L (xl_data x) of Inl e \<Rightarrow> False | Inr m \<Rightarrow> True))))"

text \<open>The WAL data of a round, and the message it is.\<close>

definition tick_xlog :: "'v lib \<Rightarrow> tick \<Rightarrow> xlog_data option" where
  "tick_xlog L tk =
     (case tk_recv tk of
        RecvCopy (tag # body) \<Rightarrow>
          if tag = CHR ''w'' then (case lib_xlog L body of Inl e \<Rightarrow> None | Inr x \<Rightarrow> Some x) else None
      | _ \<Rightarrow> None)"

definition tick_messages :: "'v lib \<Rightarrow> tick \<Rightarrow> (lsn \<times> pg_message) list" where
  "tick_messages L tk =
     (case tick_xlog L tk of
        None \<Rightarrow> []
      | Some x \<Rightarrow> (case lib_parse L (xl_data x) of Inl e \<Rightarrow> [] | Inr m \<Rightarrow> [(xl_start x, m)]))"

definition end_position :: "xlog_data \<Rightarrow> lsn" where
  "end_position x = xl_start x + of_nat (length (xl_data x))"

lemma periodic_ack_ok: "tk_ack tk = None \<Longrightarrow> snd (periodic_ack tk lp) = None"
  by (simp add: periodic_ack_def Let_def)

lemma loop_step_quiet:
  assumes "quiet_tick L tk" and "tick_xlog L tk = None"
  obtains lp' where "loop_step L handle tk (st, h, lp) = ((st, h, lp'), Continue)"
proof -
  obtain lp1 where lp1: "periodic_ack tk lp = (lp1, None)"
    using assms(1) periodic_ack_ok [of tk lp] by (cases "periodic_ack tk lp") (auto simp: quiet_tick_def)
  have "\<exists>lp'. loop_step L handle tk (st, h, lp) = ((st, h, lp'), Continue)"
    using assms lp1
    by (auto simp: loop_step_def quiet_tick_def tick_xlog_def copy_data_def Let_def
        split: received.splits list.splits if_splits sum.splits)
  with that show thesis by blast
qed

lemma loop_step_xlog:
  assumes "quiet_tick L tk" and "tick_xlog L tk = Some x"
  obtains lp' where "lp_received lp' = end_position x" and
    "loop_step L handle tk (st, h, lp) =
      (case process_message L handle x st h of
         None \<Rightarrow> ((st, h, lp'), Panic)
       | Some (st', h', Some e) \<Rightarrow> ((st', h', lp'), Return (Some (Wrapped ''process message: '' e)))
       | Some (st', h', None) \<Rightarrow> ((st', h', lp'), Continue))"
proof -
  obtain lp1 where lp1: "periodic_ack tk lp = (lp1, None)"
    using assms(1) periodic_ack_ok [of tk lp] by (cases "periodic_ack tk lp") (auto simp: quiet_tick_def)
  show thesis
    using assms lp1
    by (intro that [of "lp1\<lparr>lp_received := xl_start x + of_nat (length (xl_data x))\<rparr>"])
      (auto simp: loop_step_def quiet_tick_def tick_xlog_def copy_data_def end_position_def Let_def
        split: received.splits list.splits if_splits sum.splits)
qed

lemma quiet_tick_message:
  "quiet_tick L tk \<Longrightarrow> tick_xlog L tk = Some x \<Longrightarrow> \<exists>m. lib_parse L (xl_data x) = Inr m"
  by (auto simp: quiet_tick_def tick_xlog_def split: received.splits list.splits if_splits sum.splits)

lemma run_loop_wal:
  assumes "\<forall>tk \<in> set tks. quiet_tick L tk \<and> (\<forall>(l, m) \<in> set (tick_messages L tk). message_ok m)"
    and "wal_events L (stream_context st) (concat (map (tick_messages L) tks)) = Some (wc, evs)"
    and "relations_ok (st_relations st)"
  shows "\<exists>st' lp'. run_loop L handle tks (st, h, lp) =
    (case deliver_all handle (filter (matches (lib_lower L) (st_filter st)) evs) h of
       (h', None) \<Rightarrow> ((with_context wc st, h', lp'), Continue)
     | (h', Some e) \<Rightarrow> ((st', h', lp'), Return (Some (Wrapped ''process message: '' e))))"
  using assms
proof (induction tks arbitrary: st h lp evs)
  case Nil
  then show ?case by auto
next
  case (Cons tk tks)
  from Cons.prems(1) have quiet: "quiet_tick L tk" by simp
  show ?case
  proof (cases "tick_xlog L tk")
    case None
    obtain lp1 where "loop_step L handle tk (st, h, lp) = ((st, h, lp1), Continue)"
      by (rule loop_step_quiet [OF quiet None])
    then show ?thesis
      using Cons.IH [of st evs h lp1] Cons.prems None by (simp add: tick_messages_def)
  next
    case (Some x)
    obtain m where m: "lib_parse L (xl_data x) = Inr m"
      using quiet_tick_message [OF quiet Some] by blast
    then have msgs: "tick_messages L tk = [(xl_start x, m)]"
      by (simp add: tick_messages_def Some)
    from Cons.prems(2) obtain wc1 evs1 evs2
      where w: "wal_step L (stream_context st) (xl_start x, m) = Some (wc1, evs1)"
      and evs2: "wal_events L wc1 (concat (map (tick_messages L) tks)) = Some (wc, evs2)"
      and evs: "evs = evs1 @ evs2"
      by (auto simp: msgs bind_eq_Some_conv)
    obtain lp1 where step: "loop_step L handle tk (st, h, lp) =
      (case process_message L handle x st h of
         None \<Rightarrow> ((st, h, lp1), Panic)
       | Some (st', h', Some e) \<Rightarrow> ((st', h', lp1), Return (Some (Wrapped ''process message: '' e)))
       | Some (st', h', None) \<Rightarrow> ((st', h', lp1), Continue))"
      by (rule loop_step_xlog [OF quiet Some])
    have ok: "relations_ok (st_relations (with_context wc1 st))"
      using wal_step_relations_ok [OF w] Cons.prems(1,3) msgs
      by (simp add: stream_context_def with_context_def)
    obtain h1 r where d: "deliver_all handle (filter (matches (lib_lower L) (st_filter st)) evs1) h = (h1, r)"
      by fastforce
    show ?thesis
      using Cons.IH [OF _ _ ok, of evs2 h1 lp1] Cons.prems(1) evs2 step
      by (cases r) (simp_all add: process_message_wal_step [OF m w Cons.prems(3)] evs deliver_all_append d)
  qed
qed

section \<open>Properties\<close>

text \<open>
  C3. As long as nothing goes wrong on the connection, the loop hands to the handler exactly the
  events the WAL received stands for and the filter passes, in their order, up to the first one
  the handler refuses; it keeps running if there is none, and returns that error otherwise.
  Time-outs, keepalives and acknowledgments make no difference.
\<close>

theorem message_loop_delivers_wal:
  assumes "\<forall>tk \<in> set tks. quiet_tick L tk \<and> (\<forall>(l, m) \<in> set (tick_messages L tk). message_ok m)"
    and "wal_events L (stream_context (new_stream conn slot pub flt))
      (concat (map (tick_messages L) tks)) = Some (wc, evs)"
  shows "\<exists>st' lp'. message_loop L handle now tks (new_stream conn slot pub flt) h =
    (case deliver_all handle (filter (matches (lib_lower L) flt) evs) h of
       (h', None) \<Rightarrow> ((st', h', lp'), Continue)
     | (h', Some e) \<Rightarrow> ((st', h', lp'), Return (Some (Wrapped ''process message: '' e))))"
proof -
  have flt: "st_filter (new_stream conn slot pub flt) = flt"
    and ok: "relations_ok (st_relations (new_stream conn slot pub flt))"
    by (simp_all add: new_stream_def relations_ok_def)
  obtain h1 e where d: "deliver_all handle (filter (matches (lib_lower L) flt) evs) h = (h1, e)"
    by fastforce
  from run_loop_wal [OF assms ok, of handle h "start_loop now"] d show ?thesis
    by (cases e) (auto simp: message_loop_def flt)
qed

text \<open>
  C24. Every event of a transaction, from its \<open>BEGIN\<close> to its \<open>COMMIT\<close>, reaches the handler with
  the identifier and the commit time the \<open>BEGIN\<close> gave, and the \<open>COMMIT\<close> clears both.
\<close>

theorem transaction_metadata:
  assumes "\<forall>tk \<in> set tks. quiet_tick L tk \<and> (\<forall>(l, m) \<in> set (tick_messages L tk). message_ok m)"
    and "concat (map (tick_messages L) tks) = (l, BeginMessage xid t) # body @ [(l', CommitMessage)]"
    and "\<forall>(l, m) \<in> set body. m \<noteq> CommitMessage \<and> (\<forall>xid t. m \<noteq> BeginMessage xid t)"
    and "wal_events L (stream_context st) (concat (map (tick_messages L) tks)) \<noteq> None"
    and "relations_ok (st_relations st)"
  shows "\<exists>st' evs lp'. run_loop L (\<lambda>h ev. (h @ [ev], None)) tks (st, h, lp) = ((st', h @ evs, lp'), Continue)
    \<and> (\<forall>ev \<in> set evs. ev_xid ev = xid \<and> ev_timestamp ev = t)
    \<and> st_xid st' = 0 \<and> st_commit_time st' = zero_time"
proof -
  obtain wc evs where w: "wal_events L (stream_context st) (concat (map (tick_messages L) tks)) = Some (wc, evs)"
    using assms(4) by (metis not_None_eq surj_pair)
  have evs: "(\<forall>ev \<in> set evs. ev_xid ev = xid \<and> ev_timestamp ev = t) \<and> wc_xid wc = 0 \<and> wc_time wc = zero_time"
    if "wal_events L wc0 (body @ [(l', CommitMessage)]) = Some (wc, evs)" and "wc_xid wc0 = xid" "wc_time wc0 = t"
    for wc0 evs
    using that assms(3)
  proof (induction body arbitrary: wc0 evs)
    case Nil
    then show ?case by auto
  next
    case (Cons m ms)
    obtain k b where m: "m = (k, b)" by fastforce
    from Cons.prems(1) obtain wc1 evs1 evs2
      where s: "wal_step L wc0 (k, b) = Some (wc1, evs1)"
        and r: "wal_events L wc1 (ms @ [(l', CommitMessage)]) = Some (wc, evs2)" and e: "evs = evs1 @ evs2"
      by (auto simp: m bind_eq_Some_conv)
    have "wc_xid wc1 = xid \<and> wc_time wc1 = t \<and> (\<forall>ev \<in> set evs1. ev_xid ev = xid \<and> ev_timestamp ev = t)"
      using s Cons.prems(2-4) m by (cases b) (auto simp: wal_event_def bind_eq_Some_conv)
    with Cons.IH [OF r] Cons.prems(4) show ?case
      by (auto simp: e)
  qed
  have record_all: "deliver_all (\<lambda>h ev. (h @ [ev], None)) es h = (h @ es, None)" for es and h :: "'v change_event list"
    by (induction es arbitrary: h) auto
  have "wal_events L ((stream_context st)\<lparr>wc_xid := xid, wc_time := t\<rparr>) (body @ [(l', CommitMessage)]) = Some (wc, evs)"
    using w unfolding assms(2) by (auto simp: bind_eq_Some_conv)
  from evs [OF this] run_loop_wal [OF assms(1) w assms(5), of "\<lambda>h ev. (h @ [ev], None)" h lp] show ?thesis
    by (auto simp: record_all with_context_def intro!: exI)
qed

text \<open>
  C25. The map made from a tuple holds, for the columns that were sent, what their kind byte asks
  for and, when a codec fails, the text as sent or the size of the binary data; a value marked as
  unchanged is absent. A tuple with more columns than the relation has makes the code panic.
\<close>

theorem decode_tuple_columns:
  assumes "distinct (map rc_name (rel_columns rel))"
  shows "if length cols \<le> length (rel_columns rel)
    then \<exists>row. decode_tuple L (Some cols) rel = Some (Some row)
      \<and> (\<forall>i < length cols. row (rc_name (rel_columns rel ! i)) = sent_value L (cols ! i) (rc_oid (rel_columns rel ! i)))
      \<and> dom row \<subseteq> rc_name ` set (take (length cols) (rel_columns rel))
    else decode_tuple L (Some cols) rel = None"
proof (cases "length cols \<le> length (rel_columns rel)")
  case True
  note row = decode_columns_row [OF assms True, of L]
  have "tuple_row L cols (rel_columns rel) n = None" if "n \<notin> rc_name ` set (take (length cols) (rel_columns rel))" for n
    using decode_columns_other [OF row that] by simp
  then have "dom (tuple_row L cols (rel_columns rel)) \<subseteq> rc_name ` set (take (length cols) (rel_columns rel))"
    by (meson domIff subsetI)
  moreover have "tuple_row L cols (rel_columns rel) (rc_name (rel_columns rel ! i))
      = sent_value L (cols ! i) (rc_oid (rel_columns rel ! i))" if "i < length cols" for i
    by (subst decode_columns_nth [OF row assms that]) (simp split: option.split)
  moreover have "decode_tuple L (Some cols) rel = Some (Some (tuple_row L cols (rel_columns rel)))"
    using decode_tuple_row [OF assms, of L "Some cols"] True by (simp add: wal_row_def)
  ultimately show ?thesis
    using True by simp
next
  case False
  with decode_tuple_row [OF assms, of L "Some cols"] show ?thesis
    by (simp add: wal_row_def)
qed

section \<open>A small run\<close>

text \<open>A library that reads one-letter messages, for the concrete instances: \<open>R\<close> announces a
  relation, \<open>B\<close> and \<open>C\<close> open and close transaction 5, \<open>I\<close> is a row of relation 7 and
  \<open>J\<close> one of a relation never announced. The first byte of WAL data is its position.\<close>

definition sample_relation :: rel_msg where
  "sample_relation =
     \<lparr>rel_id = 7, rel_namespace = ''public'', rel_name = ''users'',
      rel_columns = [\<lparr>rc_name = ''id'', rc_oid = 23\<rparr>, \<lparr>rc_name = ''name'', rc_oid = 25\<rparr>]\<rparr>"

definition sample_tuple :: tuple_data where
  "sample_tuple = [\<lparr>tc_kind = CHR ''t'', tc_data = ''1''\<rparr>, \<lparr>tc_kind = CHR ''u'', tc_data = []\<rparr>]"

definition sample_parse :: "bytes \<Rightarrow> gerr + pg_message" where
  "sample_parse b =
     (if b = ''R'' then Inr (RelationMessage sample_relation)
      else if b = ''B'' then Inr (BeginMessage 5 1000)
      else if b = ''C'' then Inr CommitMessage
      else if b = ''I'' then Inr (InsertMessage 7 (Some sample_tuple))
      else if b = ''J'' then Inr (InsertMessage 9 None)
      else Inl (ErrMsg ''bad''))"

definition sample_lib :: "nat lib" where
  "sample_lib =
     \<lparr>lib_parse = sample_parse,
      lib_xlog = (\<lambda>b. case b of [] \<Rightarrow> Inl EOF | c # d \<Rightarrow> Inr \<lparr>xl_start = of_nat (byte_val c), xl_data = d\<rparr>),
      lib_keepalive = (\<lambda>b. Inr True), lib_lsn_string = (\<lambda>l. decimal (unat l)),
      lib_parse_lsn = (\<lambda>s. Inr (if s = ''0/10'' then 16 else 100)), lib_codec = (\<lambda>i. None), lib_lower = id, lib_printable = (\<lambda>r. True)\<rparr>"

definition sample_tick :: "time \<Rightarrow> bytes \<Rightarrow> tick" where
  "sample_tick now data =
     \<lparr>tk_cancelled = False, tk_now = now, tk_ack = None, tk_after_ack = now,
      tk_recv = RecvCopy data, tk_reply = None\<rparr>"

definition sample_stream :: stream where
  "sample_stream = new_stream ''postgres://h/db'' ''slot'' ''pub'' (new_filter id id [] [])"

definition sample_event :: "nat change_event" where
  "sample_event =
     \<lparr>ev_action = ''INSERT'', ev_schema = ''public'', ev_table = ''users'',
      ev_new = Some (Map.empty(''id'' \<mapsto> VString ''1'')), ev_old = None, ev_timestamp = 1000,
      ev_lsn = decimal 67, ev_xid = 5\<rparr>"

lemmas sample_defs = sample_relation_def sample_tuple_def sample_parse_def sample_lib_def sample_tick_def
  sample_stream_def sample_event_def new_stream_def new_filter_def

lemmas loop_defs = loop_step_def periodic_ack_def copy_data_def send_ack_def start_loop_def ack_interval_def
  process_message_def deliver_if_match_def row_event_def decode_tuple_def store_column_eq sent_value_def
  matches_iff keys_def

text \<open>The rounds of a whole transaction with one row, a keepalive among them.\<close>

definition sample_ticks :: "tick list" where
  "sample_ticks =
     [sample_tick 0 ''wAR'', sample_tick 1 ''wBB'', sample_tick 2 ''k'', sample_tick 3 ''wCI'', sample_tick 4 ''wDC'']"

lemma sample_messages:
  "concat (map (tick_messages sample_lib) sample_ticks) =
     [(65, RelationMessage sample_relation), (66, BeginMessage 5 1000), (67, InsertMessage 7 (Some sample_tuple)),
      (68, CommitMessage)]"
  by (simp add: sample_ticks_def tick_messages_def tick_xlog_def sample_lib_def sample_tick_def sample_parse_def)

lemma sample_quiet:
  "\<forall>tk \<in> set sample_ticks. quiet_tick sample_lib tk
     \<and> (\<forall>(l, m) \<in> set (tick_messages sample_lib tk). message_ok m)"
  by (simp add: sample_ticks_def quiet_tick_def tick_messages_def tick_xlog_def sample_defs)

lemma sample_row: "tuple_row sample_lib sample_tuple (rel_columns sample_relation) = Map.empty(''id'' \<mapsto> VString ''1'')"
  by (rule ext) (simp add: tuple_row_def sample_tuple_def sample_relation_def sent_value_def sample_lib_def)

lemma sample_context:
  "stream_context sample_stream = \<lparr>wc_relations = Map.empty, wc_xid = 0, wc_time = zero_time\<rparr>"
  by (simp add: stream_context_def sample_stream_def new_stream_def)

lemma sample_insert:
  "rels 7 = Some sample_relation \<Longrightarrow>
   wal_event sample_lib \<lparr>wc_relations = rels, wc_xid = 5, wc_time = 1000\<rparr> 67 ''INSERT'' 7 (Some sample_tuple) None
     = Some [sample_event]"
  unfolding wal_event_def wal_row_def
  by (simp add: sample_row) (simp add: sample_event_def sample_relation_def sample_tuple_def sample_lib_def)

lemma sample_wal:
  "wal_events sample_lib (stream_context sample_stream) (concat (map (tick_messages sample_lib) sample_ticks))
     = Some (\<lparr>wc_relations = [7 \<mapsto> sample_relation], wc_xid = 0, wc_time = zero_time\<rparr>, [sample_event])"
proof -
  have "rel_id sample_relation = 7" by (simp add: sample_relation_def)
  then show ?thesis
    unfolding sample_messages sample_context by (simp add: sample_insert)
qed

section \<open>Concrete instances of the properties\<close>

theorem message_loop_delivers_wal_witness:
  "\<exists>st' lp'. message_loop sample_lib (\<lambda>h ev. (h @ [ev], None)) 0 sample_ticks sample_stream []
     = ((st', [sample_event], lp'), Continue)"
proof -
  have "matches (lib_lower sample_lib) (new_filter id id [] []) sample_event"
    by (simp add: matches_iff keys_def new_filter_def)
  with message_loop_delivers_wal [OF sample_quiet sample_wal [unfolded sample_stream_def],
      of "\<lambda>h ev. (h @ [ev], None)" 0 "[]"]
  show ?thesis
    by (simp add: sample_stream_def)
qed

theorem transaction_metadata_witness:
  "\<exists>st' lp'. run_loop sample_lib (\<lambda>h ev. (h @ [ev], None)) (tl sample_ticks)
       (sample_stream\<lparr>st_relations := [7 \<mapsto> sample_relation]\<rparr>, [], start_loop 0)
     = ((st', [sample_event], lp'), Continue) \<and> ev_xid sample_event = 5 \<and> st_xid st' = 0"
proof -
  let ?st = "sample_stream\<lparr>st_relations := [7 \<mapsto> sample_relation]\<rparr>"
  have quiet: "\<forall>tk \<in> set (tl sample_ticks). quiet_tick sample_lib tk
      \<and> (\<forall>(l, m) \<in> set (tick_messages sample_lib tk). message_ok m)"
    using sample_quiet by (auto simp: sample_ticks_def)
  have "concat (map (tick_messages sample_lib) sample_ticks) =
      tick_messages sample_lib (hd sample_ticks) @ concat (map (tick_messages sample_lib) (tl sample_ticks))"
    by (simp add: sample_ticks_def)
  moreover have "length (tick_messages sample_lib (hd sample_ticks)) = 1"
    by (simp add: sample_ticks_def tick_messages_def tick_xlog_def sample_defs)
  ultimately have msgs: "concat (map (tick_messages sample_lib) (tl sample_ticks)) =
      (66, BeginMessage 5 1000) # [(67, InsertMessage 7 (Some sample_tuple))] @ [(68, CommitMessage)]"
    unfolding sample_messages by (auto simp: length_Suc_conv)
  have wal: "wal_events sample_lib (stream_context ?st) (concat (map (tick_messages sample_lib) (tl sample_ticks)))
      = Some (\<lparr>wc_relations = [7 \<mapsto> sample_relation], wc_xid = 0, wc_time = zero_time\<rparr>, [sample_event])"
    unfolding msgs by (simp add: stream_context_def sample_insert)
  have ok: "relations_ok (st_relations ?st)"
    by (simp add: relations_ok_def sample_relation_def)
  have "matches (lib_lower sample_lib) (st_filter ?st) sample_event"
    by (simp add: matches_iff keys_def sample_stream_def new_stream_def new_filter_def)
  then have "\<exists>st' lp'. run_loop sample_lib (\<lambda>h ev. (h @ [ev], None)) (tl sample_ticks) (?st, [], start_loop 0)
      = ((st', [sample_event], lp'), Continue)"
    using run_loop_wal [OF quiet wal ok, of "\<lambda>h ev. (h @ [ev], None)" "[]" "start_loop 0"] by auto
  moreover have "\<exists>st' evs lp'. run_loop sample_lib (\<lambda>h ev. (h @ [ev], None)) (tl sample_ticks) (?st, [], start_loop 0)
        = ((st', [] @ evs, lp'), Continue)
      \<and> (\<forall>ev \<in> set evs. ev_xid ev = 5 \<and> ev_timestamp ev = 1000) \<and> st_xid st' = 0 \<and> st_commit_time st' = zero_time"
    by (rule transaction_metadata [OF quiet msgs _ _ ok]) (simp_all add: wal)
  ultimately show ?thesis
    by auto
qed

theorem decode_tuple_columns_witness:
  "\<exists>row. decode_tuple sample_lib (Some sample_tuple) sample_relation = Some (Some row)
     \<and> row ''id'' = Some (VString ''1'') \<and> row ''name'' = None"
  using decode_tuple_columns [of sample_relation sample_tuple sample_lib]
  by (auto simp: sample_relation_def sample_tuple_def sample_lib_def sent_value_def less_Suc_eq all_conj_distrib)

end
