(* ===== verification/Event_Typing.thy ===== *)
theory Event_Typing
  imports Wal_Stream
begin

text \<open>
  What the handler of a stream can rely on: every event it is called with is well formed. Unlike
  the reading of the log in \<open>Wal_Stream\<close>, nothing is assumed of the connection here: any round
  may fail, and the handler may refuse an event.
\<close>

text \<open>A handler that also records the events it is called with.\<close>

definition recording :: "('h, 'v) handler \<Rightarrow> ('h \<times> 'v change_event list, 'v) handler" where
  "recording handle = (\<lambda>(h, evs) ev. case handle h ev of (h', r) \<Rightarrow> ((h', evs @ [ev]), r))"

text \<open>The relations announced in the given rounds.\<close>

definition announced :: "'v lib \<Rightarrow> tick list \<Rightarrow> rel_msg set" where
  "announced L tks = {m. \<exists>tk \<in> set tks. \<exists>l. (l, RelationMessage m) \<in> set (tick_messages L tk)}"

lemma announced_eq:
  "announced L tks = {m. \<exists>l. (l, RelationMessage m) \<in> set (concat (map (tick_messages L) tks))}"
  by (auto simp: announced_def)

text \<open>A row of a relation has no column the relation does not have.\<close>

definition row_of :: "rel_msg \<Rightarrow> 'v row option \<Rightarrow> bool" where
  "row_of rel r \<longleftrightarrow> (case r of None \<Rightarrow> True | Some row \<Rightarrow> dom row \<subseteq> rc_name ` set (rel_columns rel))"

definition event_typed :: "rel_msg set \<Rightarrow> 'v change_event \<Rightarrow> bool" where
  "event_typed rels ev \<longleftrightarrow>
     (\<exists>rel \<in> rels. ev_schema ev = rel_namespace rel \<and> ev_table ev = rel_name rel
        \<and> row_of rel (ev_new ev) \<and> row_of rel (ev_old ev))
     \<and> (ev_action ev = ''INSERT'' \<and> ev_old ev = None \<or> ev_action ev = ''UPDATE''
        \<or> ev_action ev = ''DELETE'' \<and> ev_new ev = None)"

lemma decode_columns_dom:
  "decode_columns L cols defs vals = Some row \<Longrightarrow> dom row \<subseteq> dom vals \<union> rc_name ` set defs"
  by (induction L cols defs vals rule: decode_columns.induct)
    (fastforce simp: store_column_eq split: option.splits)+

lemma decode_tuple_row_of: "decode_tuple L t rel = Some r \<Longrightarrow> row_of rel r"
  by (auto simp: decode_tuple_def row_of_def dest: decode_columns_dom split: option.splits)

text \<open>What a run keeps: the events recorded and the relations known.\<close>

definition run_typed :: "'v lib \<Rightarrow> event_filter \<Rightarrow> rel_msg set \<Rightarrow> stream \<Rightarrow> 'v change_event list \<Rightarrow> bool" where
  "run_typed L flt rels st evs \<longleftrightarrow> st_filter st = flt \<and> ran (st_relations st) \<subseteq> rels
     \<and> (\<forall>ev \<in> set evs. event_typed rels ev \<and> matches (lib_lower L) flt ev)"

lemma deliver_if_match_recording:
  assumes "deliver_if_match L (recording handle) st ev (h, evs) = ((h', evs'), r)"
  shows "set evs' \<subseteq> set evs \<union> (if matches (lib_lower L) (st_filter st) ev then {ev} else {})"
  using assms by (auto simp: deliver_if_match_def recording_def split: prod.splits option.splits if_splits)

lemma deliver_if_match_typed:
  assumes "deliver_if_match L (recording handle) st ev (h, evs) = ((h', evs'), r)"
    and "run_typed L flt rels st evs" and "st_relations st i = Some rel" and "event_typed {rel} ev"
  shows "run_typed L flt rels st evs'"
proof -
  have "event_typed rels ev"
    using assms(2-4) by (auto simp: event_typed_def run_typed_def ran_def)
  with deliver_if_match_recording [OF assms(1)] assms(2) show ?thesis
    by (auto simp: run_typed_def split: if_splits)
qed

lemma row_event_typed:
  assumes "row_of rel new_row" "row_of rel old_row"
    and "a = ''INSERT'' \<and> old_row = None \<or> a = ''UPDATE'' \<or> a = ''DELETE'' \<and> new_row = None"
  shows "event_typed {rel} (row_event L st l a rel new_row old_row)"
  using assms by (simp add: event_typed_def row_event_def)

lemma process_message_typed:
  assumes "process_message L (recording handle) x st (h, evs) = Some (st', (h', evs'), r)"
    and "run_typed L flt rels st evs"
    and "\<And>m. lib_parse L (xl_data x) = Inr (RelationMessage m) \<Longrightarrow> m \<in> rels"
  shows "run_typed L flt rels st' evs'"
proof (cases "lib_parse L (xl_data x)")
  case (Inl e)
  with assms(1,2) show ?thesis by (auto simp: process_message_def)
next
  case (Inr m)
  have none: "row_of rel None" for rel
    by (simp add: row_of_def)
  note proc = assms(1) [unfolded process_message_def Inr sum.case]
  show ?thesis
  proof (cases m)
    case (RelationMessage rel)
    with assms(2,3) Inr proc show ?thesis
      by (fastforce simp: run_typed_def ran_def split: if_splits)
  next
    case (InsertMessage i t)
    with proc assms(2) none show ?thesis
      by (force simp: bind_eq_Some_conv dest: decode_tuple_row_of split: option.splits
          intro: deliver_if_match_typed row_event_typed)
  next
    case (UpdateMessage i old_t t)
    with proc assms(2) none show ?thesis
      by (force simp: bind_eq_Some_conv dest: decode_tuple_row_of split: option.splits if_splits
          intro: deliver_if_match_typed row_event_typed)
  next
    case (DeleteMessage i t)
    with proc assms(2) none show ?thesis
      by (force simp: bind_eq_Some_conv dest: decode_tuple_row_of split: option.splits
          intro: deliver_if_match_typed row_event_typed)
  qed (use proc assms(2) in \<open>auto simp: run_typed_def\<close>)
qed

text \<open>A run keeps it, however it ends; a panic leaves the recorded events as they were.\<close>

lemma loop_step_typed:
  assumes "loop_step L (recording handle) tk (st, (h, evs), lp) = ((st', (h', evs'), lp'), r)"
    and "run_typed L flt rels st evs" and "announced L [tk] \<subseteq> rels"
  shows "run_typed L flt rels st' evs'"
proof -
  obtain lp1 e where p: "periodic_ack tk lp = (lp1, e)"
    by fastforce
  have copy: "run_typed L flt rels st' evs'"
    if "tk_recv tk = RecvCopy data"
      and c: "copy_data L (recording handle) rep data st (h, evs) lp1 = ((st', (h', evs'), lp'), r)" for data rep
  proof (cases "tick_xlog L tk")
    case None
    with that assms(2) show ?thesis
      by (auto simp: copy_data_def tick_xlog_def Let_def split: list.splits if_splits sum.splits option.splits)
  next
    case (Some x)
    have rel: "m \<in> rels" if "lib_parse L (xl_data x) = Inr (RelationMessage m)" for m
      using that assms(3) Some by (auto simp: announced_def tick_messages_def)
    have "run_typed L flt rels st'' evs''"
      if "process_message L (recording handle) x st (h, evs) = Some (st'', (h'', evs''), e'')" for st'' h'' evs'' e''
      by (rule process_message_typed [OF that assms(2) rel])
    with that Some assms(2) show ?thesis
      by (auto simp: copy_data_def tick_xlog_def Let_def split: list.splits if_splits sum.splits option.splits)
  qed
  show ?thesis
    using assms(1,2) p copy
    by (auto simp: loop_step_def split: if_splits option.splits received.splits)
qed

lemma run_loop_typed:
  assumes "run_loop L (recording handle) tks (st, (h, evs), lp) = ((st', (h', evs'), lp'), r)"
    and "run_typed L flt rels st evs" and "announced L tks \<subseteq> rels"
  shows "run_typed L flt rels st' evs'"
  using assms
proof (induction tks arbitrary: st h evs lp)
  case Nil
  then show ?case by simp
next
  case (Cons tk tks)
  obtain st1 h1 evs1 lp1 r1
    where step: "loop_step L (recording handle) tk (st, (h, evs), lp) = ((st1, (h1, evs1), lp1), r1)"
    by (metis prod.exhaust_sel)
  have "run_typed L flt rels st1 evs1"
    by (rule loop_step_typed [OF step Cons.prems(2)]) (use Cons.prems(3) in \<open>auto simp: announced_def\<close>)
  moreover have "announced L tks \<subseteq> rels"
    using Cons.prems(3) by (auto simp: announced_def)
  ultimately show ?case
    using Cons.IH [of st1 h1 evs1 lp1] Cons.prems(1) step by (cases r1) auto
qed

text \<open>
  C14. Every event the handler is ever called with is well formed, whatever the connection and
  the handler do and however the loop ends: its action is one of three, an \<open>INSERT\<close> has no old
  row and a \<open>DELETE\<close> no new one, it names a relation the server has announced, its rows have
  only columns of that relation, and the filter passes it.
\<close>

theorem handed_events_typed:
  assumes "message_loop L (recording handle) now tks st (h, []) = ((st', (h', evs), lp), r)"
  shows "\<forall>ev \<in> set evs. event_typed (ran (st_relations st) \<union> announced L tks) ev
    \<and> matches (lib_lower L) (st_filter st) ev"
proof -
  obtain st1 h1 evs1 lp1 r1
    where run: "run_loop L (recording handle) tks (st, (h, []), start_loop now) = ((st1, (h1, evs1), lp1), r1)"
    by (metis prod.exhaust_sel)
  have "run_typed L (st_filter st) (ran (st_relations st) \<union> announced L tks) st1 evs1"
    by (rule run_loop_typed [OF run]) (simp_all add: run_typed_def)
  moreover have "evs = evs1"
    using assms run by (cases r1) (auto simp: message_loop_def)
  ultimately show ?thesis
    by (simp add: run_typed_def)
qed

theorem handed_events_typed_witness:
  "event_typed {sample_relation} sample_event \<and> matches id (new_filter id id [] []) sample_event"
proof -
  let ?handle = "recording (\<lambda>h ev. (h, None)) :: (unit \<times> nat change_event list, nat) handler"
  have m: "matches (lib_lower sample_lib) (new_filter id id [] []) sample_event"
    by (simp add: matches_iff keys_def new_filter_def)
  have "relations_ok (st_relations sample_stream)"
    by (simp add: relations_ok_def sample_stream_def new_stream_def)
  from run_loop_wal [OF sample_quiet sample_wal this, of ?handle "((), [])" "start_loop 0"] m
  obtain st' lp' where "message_loop sample_lib ?handle 0 sample_ticks sample_stream ((), [])
      = ((st', ((), [sample_event]), lp'), Continue)"
    by (auto simp: recording_def message_loop_def sample_stream_def new_stream_def)
  from handed_events_typed [OF this] 
  have "event_typed (ran (st_relations sample_stream) \<union> announced sample_lib sample_ticks) sample_event" by simp
  moreover have "announced sample_lib sample_ticks = {sample_relation}"
    unfolding announced_eq sample_messages by auto
  ultimately show ?thesis
    using m by (simp add: sample_stream_def new_stream_def sample_lib_def)
qed

end
