(* ===== verification/Metrics.thy ===== *)
theory Metrics
  imports Event_Filter
begin

text \<open>
  \<open>internal/metrics/metrics.go\<close>: the metrics of the pipeline. The Prometheus client is not part
  of the repository, so a metric is not given a meaning of its own here: the model records which
  call is made, on which metric, with which labels and value, in order. A constructor takes the
  labels in the order of the declaration. Durations are in nanoseconds, not in \<open>float64\<close> seconds.
\<close>

datatype metric =
    EventsTotal string string string
  | DeliveryDuration string time
  | ReplicationLag time
  | RetriesTotal string
  | SnapshotRowsTotal string
  | BatchFlushTotal string
  | BatchSize nat
  | DLQEventsTotal string

text \<open>The name and the label names each metric is registered with.\<close>

fun metric_name :: "metric \<Rightarrow> string" where
  "metric_name (EventsTotal action table status) = ''pgcdc_events_total''"
| "metric_name (DeliveryDuration sink d) = ''pgcdc_delivery_duration_seconds''"
| "metric_name (ReplicationLag d) = ''pgcdc_replication_lag_seconds''"
| "metric_name (RetriesTotal outcome) = ''pgcdc_retries_total''"
| "metric_name (SnapshotRowsTotal table) = ''pgcdc_snapshot_rows_total''"
| "metric_name (BatchFlushTotal trigger) = ''pgcdc_batch_flush_total''"
| "metric_name (BatchSize n) = ''pgcdc_batch_size''"
| "metric_name (DLQEventsTotal table) = ''pgcdc_dlq_events_total''"

fun metric_labels :: "metric \<Rightarrow> (string \<times> string) list" where
  "metric_labels (EventsTotal action table status) =
     [(''action'', action), (''table'', table), (''status'', status)]"
| "metric_labels (DeliveryDuration sink d) = [(''sink'', sink)]"
| "metric_labels (ReplicationLag d) = []"
| "metric_labels (RetriesTotal outcome) = [(''outcome'', outcome)]"
| "metric_labels (SnapshotRowsTotal table) = [(''table'', table)]"
| "metric_labels (BatchFlushTotal trigger) = [(''trigger'', trigger)]"
| "metric_labels (BatchSize n) = []"
| "metric_labels (DLQEventsTotal table) = [(''table'', table)]"

datatype metric_kind = CounterVec | HistogramVec | Gauge | Histogram

fun metric_kind_of :: "metric \<Rightarrow> metric_kind" where
  "metric_kind_of (EventsTotal action table status) = CounterVec"
| "metric_kind_of (DeliveryDuration sink d) = HistogramVec"
| "metric_kind_of (ReplicationLag d) = Gauge"
| "metric_kind_of (RetriesTotal outcome) = CounterVec"
| "metric_kind_of (SnapshotRowsTotal table) = CounterVec"
| "metric_kind_of (BatchFlushTotal trigger) = CounterVec"
| "metric_kind_of (BatchSize n) = Histogram"
| "metric_kind_of (DLQEventsTotal table) = CounterVec"

fun metric_help :: "metric \<Rightarrow> string" where
  "metric_help (EventsTotal action table status) = ''Total number of change events processed.''"
| "metric_help (DeliveryDuration sink d) = ''Time taken to deliver a change event to the sink.''"
| "metric_help (ReplicationLag d) = ''Seconds between transaction commit time and processing time.''"
| "metric_help (RetriesTotal outcome) = ''Total retry attempts for event delivery.''"
| "metric_help (SnapshotRowsTotal table) = ''Total rows emitted during initial snapshot.''"
| "metric_help (BatchFlushTotal trigger) = ''Total batch flushes by trigger type.''"
| "metric_help (BatchSize n) = ''Number of events per batch flush.''"
| "metric_help (DLQEventsTotal table) = ''Total events written to the dead-letter queue.''"

text \<open>The upper bounds of the buckets; those of the durations in milliseconds.\<close>

fun metric_buckets :: "metric \<Rightarrow> nat list" where
  "metric_buckets (DeliveryDuration sink d) = [1, 5, 10, 25, 50, 100, 250, 500, 1000, 5000, 10000, 30000]"
| "metric_buckets (BatchSize n) = [1, 5, 10, 25, 50, 100, 250, 500, 1000]"
| "metric_buckets _ = []"

end
