(* ===== verification/Sink.thy ===== *)
theory Sink
  imports Metrics
begin

text \<open>
  \<open>internal/sink/sink.go\<close>: the interface of every destination, what its contract is, and the
  outside world the destinations act on.

  A sink is a record of functions on a world state. The world holds what the rest of the system
  answers (the HTTP status or error of every request, the result of every Kafka produce and
  every write, the readings of the clock, the 53 bits of every \<open>rand.Float64()\<close>, whether the context is
  cancelled whenever it is asked)
  and the logs of what was done to it; the answer to the \<open>n\<close>-th request is fixed in advance but
  arbitrary. A call that panics is \<open>None\<close>.
\<close>

section \<open>The world\<close>

record http_post =
  hp_url :: string
  hp_headers :: "(string \<times> string) list"
  hp_body :: bytes

record kafka_record =
  kr_topic :: string
  kr_key :: bytes
  kr_value :: bytes

text \<open>A \<open>json.Encoder\<close> on a file: it keeps its first write error and gives it ever after.\<close>

record encoder =
  enc_write :: "nat \<Rightarrow> gerr option"
  enc_calls :: nat
  enc_err :: "gerr option"
  enc_out :: "bytes list"

definition new_encoder :: "(nat \<Rightarrow> gerr option) \<Rightarrow> encoder" where
  "new_encoder writes = \<lparr>enc_write = writes, enc_calls = 0, enc_err = None, enc_out = []\<rparr>"

record world =
  w_http :: "nat \<Rightarrow> gerr + nat"
  w_posts :: "http_post list"
  w_kafka :: "nat \<Rightarrow> gerr option"
  w_records :: "kafka_record list"
  w_stdout :: encoder
  w_dlq :: encoder
  w_clock :: "nat \<Rightarrow> time"
  w_reads :: nat
  w_cancelled :: "nat \<Rightarrow> bool"
  w_ctx_error :: gerr
  w_polls :: nat
  w_rand :: "nat \<Rightarrow> nat"
  w_sleeps :: "int list"
  w_metrics :: "metric list"
  w_closed :: "string list"

text \<open>Reading the clock, asking the context, and recording a metric.\<close>

definition now :: "world \<Rightarrow> time \<times> world" where
  "now w = (w_clock w (w_reads w), w\<lparr>w_reads := w_reads w + 1\<rparr>)"

definition ctx_err :: "world \<Rightarrow> bool \<times> world" where
  "ctx_err w = (w_cancelled w (w_polls w), w\<lparr>w_polls := w_polls w + 1\<rparr>)"

definition measure_as :: "metric \<Rightarrow> world \<Rightarrow> world" where
  "measure_as m w = w\<lparr>w_metrics := w_metrics w @ [m]\<rparr>"

text \<open>\<open>Encoder.Encode\<close>, given what marshalling the value gives: one write of the text and a
  newline. A marshalling error is not kept. What a failed write leaves in the file is not
  modelled.\<close>

definition encode :: "gerr + bytes \<Rightarrow> encoder \<Rightarrow> encoder \<times> gerr option" where
  "encode json enc =
     (case enc_err enc of
        Some e \<Rightarrow> (enc, Some e)
      | None \<Rightarrow> (case json of
            Inl e \<Rightarrow> (enc, Some e)
          | Inr b \<Rightarrow> (case enc_write enc (enc_calls enc) of
                Some e \<Rightarrow> (enc\<lparr>enc_calls := enc_calls enc + 1, enc_err := Some e\<rparr>, Some e)
              | None \<Rightarrow> (enc\<lparr>enc_calls := enc_calls enc + 1, enc_out := enc_out enc @ [b @ [CHR 0x0A]]\<rparr>, None))))"

section \<open>The interface\<close>

record 'v sink =
  deliver :: "'v change_event \<Rightarrow> world \<Rightarrow> (world \<times> gerr option) option"
  close :: "world \<Rightarrow> world \<times> gerr option"

text \<open>What no operation takes back: the logs only grow and the answers do not change.\<close>

definition enc_grows :: "encoder \<Rightarrow> encoder \<Rightarrow> bool" where
  "enc_grows e e' \<longleftrightarrow> enc_write e' = enc_write e \<and> (\<exists>xs. enc_out e' = enc_out e @ xs)
     \<and> (enc_err e \<noteq> None \<longrightarrow> enc_err e' = enc_err e)"

definition grows :: "world \<Rightarrow> world \<Rightarrow> bool" where
  "grows w w' \<longleftrightarrow> w_http w' = w_http w \<and> w_kafka w' = w_kafka w
     \<and> (\<exists>ps. w_posts w' = w_posts w @ ps) \<and> (\<exists>rs. w_records w' = w_records w @ rs)
     \<and> enc_grows (w_stdout w) (w_stdout w') \<and> enc_grows (w_dlq w) (w_dlq w')"

lemma enc_grows_refl [simp, go_state]: "enc_grows e e"
  by (simp add: enc_grows_def)

lemma enc_grows_trans: "enc_grows e e' \<Longrightarrow> enc_grows e' e'' \<Longrightarrow> enc_grows e e''"
  by (fastforce simp: enc_grows_def)

lemma grows_refl [simp, go_state]: "grows w w"
  by (simp add: grows_def)

lemma grows_trans [trans]: "grows w w' \<Longrightarrow> grows w' w'' \<Longrightarrow> grows w w''"
  unfolding grows_def by (fastforce intro: enc_grows_trans)

lemma grows_ambient [simp, go_state]:
  "grows w (snd (now w))" "grows w (snd (ctx_err w))" "grows w (measure_as m w)"
  "grows w (w\<lparr>w_sleeps := s\<rparr>)"
  by (simp_all add: grows_def now_def ctx_err_def measure_as_def)

text \<open>The ambient steps of a decorator, appended to a run.\<close>

lemma grows_intros:
  "grows w w' \<Longrightarrow> grows w (snd (now w'))" "grows w w' \<Longrightarrow> grows w (snd (ctx_err w'))"
  "grows w w' \<Longrightarrow> grows w (measure_as m w')" "grows w w' \<Longrightarrow> grows w (w'\<lparr>w_sleeps := s\<rparr>)"
  by (rule grows_trans, assumption, simp)+

lemma encode_grows [go_state]: "encode json enc = (enc', r) \<Longrightarrow> enc_grows enc enc'"
  by (auto simp: encode_def enc_grows_def split: option.splits sum.splits)

lemma encode_ok: "encode json enc = (enc', None) \<Longrightarrow> \<exists>b. json = Inr b \<and> b @ [CHR 0x0A] \<in> set (enc_out enc')"
  by (auto simp: encode_def split: option.splits sum.splits)

lemma encode_fst_grows [go_state]: "enc_grows enc (fst (encode json enc))"
  by (rule encode_grows [OF prod.collapse [symmetric]])

lemma encode_snd_ok:
  "snd (encode json enc) = None \<Longrightarrow> \<exists>b. json = Inr b \<and> b @ [CHR 0x0A] \<in> set (enc_out (fst (encode json enc)))"
  using encode_ok [of json enc "fst (encode json enc)"] by (simp add: prod_eq_iff)

lemma enc_grows_out: "enc_grows enc enc' \<Longrightarrow> x \<in> set (enc_out enc) \<Longrightarrow> x \<in> set (enc_out enc')"
  by (auto simp: enc_grows_def)

text \<open>A client of a sink: the handler the stream and the snapshot call. A panic would end the
  process; the contract below rules it out, and a handler is only used for sinks that keep it.\<close>

definition handler_of :: "'v sink \<Rightarrow> world \<Rightarrow> 'v change_event \<Rightarrow> world \<times> gerr option" where
  "handler_of S w ev = (case deliver S ev w of Some r \<Rightarrow> r | None \<Rightarrow> (w, Some (ErrMsg ''panic'')))"

text \<open>The contract: a call returns, never takes anything back, and gives \<open>nil\<close> only when the
  event has been received, which is a fact about the logs that stays true.\<close>

locale sink_contract =
  fixes S :: "'v sink" and received :: "'v change_event \<Rightarrow> world \<Rightarrow> bool"
  assumes deliver_returns: "deliver S ev w \<noteq> None"
    and deliver_grows: "deliver S ev w = Some (w', r) \<Longrightarrow> grows w w'"
    and deliver_nil: "deliver S ev w = Some (w', None) \<Longrightarrow> received ev w'"
    and received_mono: "grows w w' \<Longrightarrow> received ev w \<Longrightarrow> received ev w'"
begin

lemma handler_deliver: "deliver S ev w = Some (handler_of S w ev)"
  using deliver_returns [of ev w] by (auto simp: handler_of_def)

lemma handler_grows: "grows w (fst (handler_of S w ev))"
  using deliver_grows [of ev w "fst (handler_of S w ev)" "snd (handler_of S w ev)"]
  by (simp add: handler_deliver)

lemma handler_nil: "handler_of S w ev = (w', None) \<Longrightarrow> received ev w'"
  using deliver_nil [of ev w w'] by (simp add: handler_deliver)

end

text \<open>The same for what receives whole batches: \<open>nil\<close> only when every event of it is received.\<close>

record 'v batch_deliverer =
  deliver_batch :: "'v change_event list \<Rightarrow> world \<Rightarrow> world \<times> gerr option"
  close_batch :: "world \<Rightarrow> world \<times> gerr option"

locale batch_contract =
  fixes D :: "'v batch_deliverer" and batch_received :: "'v change_event list \<Rightarrow> world \<Rightarrow> bool"
  assumes batch_grows: "deliver_batch D evs w = (w', r) \<Longrightarrow> grows w w'"
    and batch_nil: "deliver_batch D evs w = (w', None) \<Longrightarrow> batch_received evs w'"
    and batch_received_mono: "grows w w' \<Longrightarrow> batch_received evs w \<Longrightarrow> batch_received evs w'"

end
