(* ===== verification/Batch.thy ===== *)
theory Batch
  imports Sink "HOL-Library.Multiset"
begin

text \<open>
  \<open>internal/sink/batch.go\<close>: events are buffered under a mutex and handed to the inner deliverer
  in batches, by whoever fills the buffer, by a timer, or by \<open>Close\<close>; the inner call runs
  outside the mutex, so several can be under way at once.

  Each critical section is one function of the sink's state. The state includes the timers the
  runtime runs for it: \<open>time.AfterFunc\<close> makes a fresh one, which fires at some point unless it
  is stopped first; a callback that has started can no longer be stopped and waits for the mutex.
  The whole is a step relation in which the sections, the firings and the ends of the inner
  calls interleave in any order. A context is a number.
\<close>

section \<open>The sink\<close>

record 'e batcher =
  bt_max_size :: int
  bt_buffer :: "'e list"
  bt_timer :: "nat option"
  bt_flush_ctx :: "nat option"
  bt_flushed :: bool
  bt_armed :: "nat set"
  bt_fired :: "nat set"
  bt_fresh :: nat

text \<open>The sink \<open>NewBatchSink\<close> makes; a negative capacity makes \<open>make\<close> panic, \<open>None\<close>.\<close>

definition empty_batcher :: "int \<Rightarrow> 'e batcher" where
  "empty_batcher max_size =
     \<lparr>bt_max_size = max_size, bt_buffer = [], bt_timer = None, bt_flush_ctx = None, bt_flushed = False,
      bt_armed = {}, bt_fired = {}, bt_fresh = 0\<rparr>"

definition new_batch_sink :: "int \<Rightarrow> 'e batcher option" where
  "new_batch_sink max_size = (if max_size < 0 then None else Some (empty_batcher max_size))"

definition take_batch_locked :: "'e batcher \<Rightarrow> 'e list \<times> 'e batcher" where
  "take_batch_locked b = (bt_buffer b, b\<lparr>bt_buffer := []\<rparr>)"

text \<open>\<open>timer.Stop()\<close> and \<open>timer = nil\<close>, when there is one.\<close>

definition stop_timer :: "'e batcher \<Rightarrow> 'e batcher" where
  "stop_timer b =
     (case bt_timer b of
        None \<Rightarrow> b
      | Some t \<Rightarrow> b\<lparr>bt_armed := bt_armed b - {t}, bt_timer := None\<rparr>)"

definition start_timer :: "'e batcher \<Rightarrow> 'e batcher" where
  "start_timer b =
     b\<lparr>bt_armed := insert (bt_fresh b) (bt_armed b), bt_timer := Some (bt_fresh b),
       bt_fresh := Suc (bt_fresh b)\<rparr>"

text \<open>The critical section of \<open>Deliver\<close>: the batch to deliver, if the buffer is full.\<close>

definition deliver_locked :: "nat \<Rightarrow> 'e \<Rightarrow> 'e batcher \<Rightarrow> 'e batcher \<times> 'e list option" where
  "deliver_locked ctx ev b =
     (let b1 = (if bt_flush_ctx b = None then b\<lparr>bt_flush_ctx := Some ctx\<rparr> else b);
          b2 = b1\<lparr>bt_buffer := bt_buffer b1 @ [ev]\<rparr>;
          b3 = (if length (bt_buffer b2) = 1 then start_timer b2 else b2)
      in if int (length (bt_buffer b3)) \<ge> bt_max_size b3 then
           (let (batch, b4) = take_batch_locked b3 in (stop_timer b4, Some batch))
         else (b3, None))"

text \<open>The critical section of the timer's callback: the batch and the context to deliver it with.\<close>

definition callback_locked :: "nat \<Rightarrow> 'e batcher \<Rightarrow> 'e batcher \<times> 'e list \<times> nat option" where
  "callback_locked t b =
     (let (batch, b') = take_batch_locked (b\<lparr>bt_fired := bt_fired b - {t}\<rparr>)
      in (b', batch, bt_flush_ctx b'))"

definition close_locked :: "'e batcher \<Rightarrow> 'e batcher \<times> 'e list" where
  "close_locked b = (let (batch, b') = take_batch_locked (stop_timer b) in (b', batch))"

text \<open>The whole operations, when nothing interleaves.\<close>

definition flush_metrics :: "string \<Rightarrow> 'e list \<Rightarrow> world \<Rightarrow> world" where
  "flush_metrics trigger batch w = measure_as (BatchSize (length batch)) (measure_as (BatchFlushTotal trigger) w)"

definition batch_deliver ::
    "'v batch_deliverer \<Rightarrow> nat \<Rightarrow> 'v change_event \<Rightarrow> 'v change_event batcher \<Rightarrow> world
      \<Rightarrow> ('v change_event batcher \<times> world) \<times> gerr option" where
  "batch_deliver D ctx ev b w =
     (case deliver_locked ctx ev b of
        (b', Some batch) \<Rightarrow>
          (case deliver_batch D batch (flush_metrics ''size'' batch w) of (w', r) \<Rightarrow> ((b', w'), r))
      | (b', None) \<Rightarrow> ((b', w), None))"

definition timer_callback ::
    "'v batch_deliverer \<Rightarrow> nat \<Rightarrow> 'v change_event batcher \<Rightarrow> world \<Rightarrow> 'v change_event batcher \<times> world" where
  "timer_callback D t b w =
     (case callback_locked t b of
        (b', batch, ctx) \<Rightarrow>
          (let w' = (if length batch > 0 then fst (deliver_batch D batch (flush_metrics ''time'' batch w)) else w)
           in (b'\<lparr>bt_flushed := True\<rparr>, w')))"

definition batch_close ::
    "'v batch_deliverer \<Rightarrow> 'v change_event batcher \<Rightarrow> world
      \<Rightarrow> ('v change_event batcher \<times> world) \<times> gerr option" where
  "batch_close D b w =
     (case close_locked b of
        (b', batch) \<Rightarrow>
          (let w' = (if length batch > 0 then fst (deliver_batch D batch (flush_metrics ''close'' batch w)) else w)
           in case close_batch D w' of (w'', r) \<Rightarrow> ((b', w''), r)))"

section \<open>Any interleaving\<close>

text \<open>Who took a batch, and with which context it is delivered; \<open>Close\<close> makes its own.\<close>

datatype origin = BySize nat | ByTime "nat option" | ByClose

text \<open>Besides the sink: the inner calls under way, what they have ended with, and, for the
  statements, the events given to \<open>Deliver\<close> in order, the batches in the order they were taken,
  and the events whose \<open>Deliver\<close> has returned \<open>nil\<close>.\<close>

record 'e batch_system =
  bs_sink :: "'e batcher"
  bs_flight :: "(origin \<times> 'e list) multiset"
  bs_delivered :: "'e list multiset"
  bs_refused :: "(origin \<times> 'e list) multiset"
  bs_given :: "'e list"
  bs_taken :: "'e list list"
  bs_acked :: "'e multiset"

definition start_system :: "'e batcher \<Rightarrow> 'e batch_system" where
  "start_system b =
     \<lparr>bs_sink = b, bs_flight = {#}, bs_delivered = {#}, bs_refused = {#},
      bs_given = [], bs_taken = [], bs_acked = {#}\<rparr>"

text \<open>The \<open>Deliver\<close> that filled a batch gets the result of the inner call; its event is the last.\<close>

definition ack_on_success :: "origin \<Rightarrow> 'e list \<Rightarrow> 'e multiset" where
  "ack_on_success orig batch = (case orig of BySize ctx \<Rightarrow> {#last batch#} | _ \<Rightarrow> {#})"

definition signal_flushed :: "origin \<Rightarrow> 'e batcher \<Rightarrow> 'e batcher" where
  "signal_flushed orig b = (case orig of ByTime ctx \<Rightarrow> b\<lparr>bt_flushed := True\<rparr> | _ \<Rightarrow> b)"

inductive batch_step :: "'e batch_system \<Rightarrow> 'e batch_system \<Rightarrow> bool" where
  buffered: "deliver_locked ctx ev (bs_sink s) = (b, None) \<Longrightarrow>
    batch_step s (s\<lparr>bs_sink := b, bs_given := bs_given s @ [ev], bs_acked := add_mset ev (bs_acked s)\<rparr>)"
| filled: "deliver_locked ctx ev (bs_sink s) = (b, Some batch) \<Longrightarrow>
    batch_step s (s\<lparr>bs_sink := b, bs_given := bs_given s @ [ev], bs_taken := bs_taken s @ [batch],
      bs_flight := add_mset (BySize ctx, batch) (bs_flight s)\<rparr>)"
| fires: "t \<in> bt_armed (bs_sink s) \<Longrightarrow>
    batch_step s (s\<lparr>bs_sink := (bs_sink s)\<lparr>bt_armed := bt_armed (bs_sink s) - {t},
      bt_fired := insert t (bt_fired (bs_sink s))\<rparr>\<rparr>)"
| called_back: "t \<in> bt_fired (bs_sink s) \<Longrightarrow> callback_locked t (bs_sink s) = (b, batch, ctx) \<Longrightarrow> batch \<noteq> [] \<Longrightarrow>
    batch_step s (s\<lparr>bs_sink := b, bs_taken := bs_taken s @ [batch],
      bs_flight := add_mset (ByTime ctx, batch) (bs_flight s)\<rparr>)"
| called_back_empty: "t \<in> bt_fired (bs_sink s) \<Longrightarrow> callback_locked t (bs_sink s) = (b, [], ctx) \<Longrightarrow>
    batch_step s (s\<lparr>bs_sink := b\<lparr>bt_flushed := True\<rparr>\<rparr>)"
| closed: "close_locked (bs_sink s) = (b, batch) \<Longrightarrow> batch \<noteq> [] \<Longrightarrow>
    batch_step s (s\<lparr>bs_sink := b, bs_taken := bs_taken s @ [batch],
      bs_flight := add_mset (ByClose, batch) (bs_flight s)\<rparr>)"
| closed_empty: "close_locked (bs_sink s) = (b, []) \<Longrightarrow> batch_step s (s\<lparr>bs_sink := b\<rparr>)"
| succeeds: "bs_flight s = add_mset (orig, batch) fl \<Longrightarrow>
    batch_step s (s\<lparr>bs_sink := signal_flushed orig (bs_sink s), bs_flight := fl,
      bs_delivered := add_mset batch (bs_delivered s), bs_acked := bs_acked s + ack_on_success orig batch\<rparr>)"
| fails: "bs_flight s = add_mset (orig, batch) fl \<Longrightarrow>
    batch_step s (s\<lparr>bs_sink := signal_flushed orig (bs_sink s), bs_flight := fl,
      bs_refused := add_mset (orig, batch) (bs_refused s)\<rparr>)"

inductive batch_reachable :: "int \<Rightarrow> 'e batch_system \<Rightarrow> bool" for max_size where
  batch_start: "new_batch_sink max_size = Some b \<Longrightarrow> batch_reachable max_size (start_system b)"
| batch_next: "batch_reachable max_size s \<Longrightarrow> batch_step s s' \<Longrightarrow> batch_reachable max_size s'"

section \<open>The invariant\<close>

text \<open>Nothing given is lost or reordered when batches are cut; a batch is never empty and within
  its bound; a buffer with events has a timer that is still going to flush it.\<close>

definition batch_bound :: "int \<Rightarrow> nat" where
  "batch_bound max_size = max 1 (nat max_size)"

definition taken_ok :: "'e batch_system \<Rightarrow> bool" where
  "taken_ok s \<longleftrightarrow> concat (bs_taken s) @ bt_buffer (bs_sink s) = bs_given s
     \<and> mset (bs_taken s) = image_mset snd (bs_flight s) + bs_delivered s + image_mset snd (bs_refused s)"

definition sizes_ok :: "int \<Rightarrow> 'e batch_system \<Rightarrow> bool" where
  "sizes_ok max_size s \<longleftrightarrow> bt_max_size (bs_sink s) = max_size
     \<and> length (bt_buffer (bs_sink s)) < batch_bound max_size
     \<and> (\<forall>batch \<in> set (bs_taken s). batch \<noteq> [] \<and> length batch \<le> batch_bound max_size)"

definition timer_ok :: "'e batcher \<Rightarrow> bool" where
  "timer_ok b \<longleftrightarrow> (bt_buffer b \<noteq> [] \<longrightarrow>
     (\<exists>t. bt_timer b = Some t \<and> (t \<in> bt_armed b \<or> t \<in> bt_fired b)))"

lemmas batcher_defs = deliver_locked_def callback_locked_def close_locked_def take_batch_locked_def
  stop_timer_def start_timer_def Let_def

lemma deliver_locked_None:
  "deliver_locked ctx ev b = (b', None) \<Longrightarrow>
     bt_buffer b' = bt_buffer b @ [ev] \<and> bt_max_size b' = bt_max_size b
     \<and> int (length (bt_buffer b) + 1) < bt_max_size b"
  by (auto simp: batcher_defs split: if_splits option.splits)

lemma deliver_locked_Some:
  "deliver_locked ctx ev b = (b', Some batch) \<Longrightarrow>
     bt_buffer b' = [] \<and> bt_max_size b' = bt_max_size b \<and> batch = bt_buffer b @ [ev]"
  by (auto simp: batcher_defs split: if_splits option.splits)

lemma callback_locked_eq:
  "callback_locked t b = (b', batch, ctx) \<Longrightarrow>
     bt_buffer b' = [] \<and> bt_max_size b' = bt_max_size b \<and> batch = bt_buffer b"
  by (auto simp: batcher_defs)

lemma close_locked_eq:
  "close_locked b = (b', batch) \<Longrightarrow>
     bt_buffer b' = [] \<and> bt_max_size b' = bt_max_size b \<and> batch = bt_buffer b"
  by (auto simp: batcher_defs split: option.splits)

lemma signal_flushed_simps [simp]:
  "bt_buffer (signal_flushed orig b) = bt_buffer b" "bt_max_size (signal_flushed orig b) = bt_max_size b"
  "bt_timer (signal_flushed orig b) = bt_timer b" "bt_armed (signal_flushed orig b) = bt_armed b"
  "bt_fired (signal_flushed orig b) = bt_fired b"
  by (simp_all add: signal_flushed_def split: origin.split)

lemmas locked_effects = deliver_locked_None deliver_locked_Some callback_locked_eq close_locked_eq

lemma taken_ok_step: "batch_step s s' \<Longrightarrow> taken_ok s \<Longrightarrow> taken_ok s'"
proof (induction rule: batch_step.induct)
  case (buffered ctx ev s b)
  with deliver_locked_None [OF buffered(1)] show ?case by (auto simp: taken_ok_def)
next
  case (filled ctx ev s b batch)
  with deliver_locked_Some [OF filled(1)] show ?case by (auto simp: taken_ok_def)
next
  case (called_back t s b batch ctx)
  with callback_locked_eq [OF called_back(2)] show ?case by (auto simp: taken_ok_def)
next
  case (called_back_empty t s b ctx)
  with callback_locked_eq [OF called_back_empty(2)] show ?case by (auto simp: taken_ok_def)
next
  case (closed s b batch)
  with close_locked_eq [OF closed(1)] show ?case by (auto simp: taken_ok_def)
next
  case (closed_empty s b)
  with close_locked_eq [OF closed_empty(1)] show ?case by (auto simp: taken_ok_def)
qed (simp_all add: taken_ok_def)

lemma sizes_ok_step: "batch_step s s' \<Longrightarrow> sizes_ok max_size s \<Longrightarrow> sizes_ok max_size s'"
proof (induction rule: batch_step.induct)
  case (buffered ctx ev s b)
  with deliver_locked_None [OF buffered(1)] show ?case by (auto simp: sizes_ok_def batch_bound_def)
next
  case (filled ctx ev s b batch)
  with deliver_locked_Some [OF filled(1)] show ?case by (auto simp: sizes_ok_def batch_bound_def)
next
  case (called_back t s b batch ctx)
  with callback_locked_eq [OF called_back(2)] show ?case by (auto simp: sizes_ok_def batch_bound_def)
next
  case (called_back_empty t s b ctx)
  with callback_locked_eq [OF called_back_empty(2)] show ?case by (auto simp: sizes_ok_def)
next
  case (closed s b batch)
  with close_locked_eq [OF closed(1)] show ?case by (auto simp: sizes_ok_def batch_bound_def)
next
  case (closed_empty s b)
  with close_locked_eq [OF closed_empty(1)] show ?case by (auto simp: sizes_ok_def)
qed (simp_all add: sizes_ok_def)

lemma timer_ok_step: "batch_step s s' \<Longrightarrow> timer_ok (bs_sink s) \<Longrightarrow> timer_ok (bs_sink s')"
proof (induction rule: batch_step.induct)
  case (buffered ctx ev s b)
  then show ?case by (auto simp: timer_ok_def batcher_defs split: if_splits option.splits)
next
  case (filled ctx ev s b batch)
  with deliver_locked_Some [OF filled(1)] show ?case by (simp add: timer_ok_def)
next
  case (fires t s)
  then show ?case by (auto simp: timer_ok_def)
next
  case (called_back t s b batch ctx)
  with callback_locked_eq [OF called_back(2)] show ?case by (simp add: timer_ok_def)
next
  case (called_back_empty t s b ctx)
  with callback_locked_eq [OF called_back_empty(2)] show ?case by (simp add: timer_ok_def)
next
  case (closed s b batch)
  with close_locked_eq [OF closed(1)] show ?case by (simp add: timer_ok_def)
next
  case (closed_empty s b)
  with close_locked_eq [OF closed_empty(1)] show ?case by (simp add: timer_ok_def)
qed (simp_all add: timer_ok_def)

lemma batch_reachable_inv:
  assumes "batch_reachable max_size s"
  shows "taken_ok s" "sizes_ok max_size s" "timer_ok (bs_sink s)"
  using assms
proof (induction rule: batch_reachable.induct)
  case (batch_start b)
  then have b: "b = empty_batcher max_size"
    by (simp add: new_batch_sink_def split: if_splits)
  {
    case 1 show ?case by (simp add: taken_ok_def start_system_def empty_batcher_def b)
  next
    case 2 show ?case by (simp add: sizes_ok_def start_system_def empty_batcher_def batch_bound_def b)
  next
    case 3 show ?case by (simp add: timer_ok_def start_system_def empty_batcher_def b)
  }
next
  case (batch_next s s')
  {
    case 1 show ?case using batch_next taken_ok_step by blast
  next
    case 2 show ?case using batch_next sizes_ok_step by blast
  next
    case 3 show ?case using batch_next timer_ok_step by blast
  }
qed

lemma batch_reachable_steps:
  "batch_step\<^sup>*\<^sup>* s s' \<Longrightarrow> batch_reachable max_size s \<Longrightarrow> batch_reachable max_size s'"
  by (induction rule: rtranclp_induct) (auto intro: batch_reachable.batch_next)

text \<open>A run of the sink on its own is a run of the system.\<close>

lemma batch_deliver_steps:
  assumes "batch_deliver D ctx ev (bs_sink s) w = ((b', w'), r)"
  shows "\<exists>s'. batch_step\<^sup>*\<^sup>* s s' \<and> bs_sink s' = b' \<and> bs_given s' = bs_given s @ [ev]
    \<and> bs_acked s' = bs_acked s + (if r = None then {#ev#} else {#})"
proof (cases "deliver_locked ctx ev (bs_sink s)")
  case (Pair b batch)
  show ?thesis
  proof (cases batch)
    case None
    with Pair assms have "b' = b" "r = None" by (auto simp: batch_deliver_def)
    moreover have "batch_step\<^sup>*\<^sup>* s (s\<lparr>bs_sink := b, bs_given := bs_given s @ [ev], bs_acked := add_mset ev (bs_acked s)\<rparr>)"
      using batch_step.buffered [of ctx ev s b] Pair None by simp
    ultimately show ?thesis
      by (intro exI conjI) auto
  next
    case (Some bat)
    note taken = deliver_locked_Some [of ctx ev "bs_sink s" b bat]
    from Pair Some assms have b': "b' = b" by (auto simp: batch_deliver_def split: prod.splits)
    let ?s1 = "s\<lparr>bs_sink := b, bs_given := bs_given s @ [ev], bs_taken := bs_taken s @ [bat],
      bs_flight := add_mset (BySize ctx, bat) (bs_flight s)\<rparr>"
    have step: "batch_step s ?s1"
      using batch_step.filled [of ctx ev s b bat] Pair Some by simp
    have last: "last bat = ev"
      using taken Pair Some by simp
    show ?thesis
    proof (cases r)
      case None
      let ?s2 = "?s1\<lparr>bs_sink := signal_flushed (BySize ctx) (bs_sink ?s1), bs_flight := bs_flight s,
          bs_delivered := add_mset bat (bs_delivered ?s1), bs_acked := bs_acked ?s1 + ack_on_success (BySize ctx) bat\<rparr>"
      have "batch_step ?s1 ?s2"
        by (rule batch_step.succeeds) simp
      with step have "batch_step\<^sup>*\<^sup>* s ?s2"
        by (rule rtranclp.rtrancl_into_rtrancl [OF r_into_rtranclp])
      then show ?thesis
        using None b' last by (intro exI [of _ ?s2]) (simp add: signal_flushed_def ack_on_success_def)
    next
      case (Some e)
      let ?s2 = "?s1\<lparr>bs_sink := signal_flushed (BySize ctx) (bs_sink ?s1), bs_flight := bs_flight s,
          bs_refused := add_mset (BySize ctx, bat) (bs_refused ?s1)\<rparr>"
      have "batch_step ?s1 ?s2"
        by (rule batch_step.fails) simp
      with step have "batch_step\<^sup>*\<^sup>* s ?s2"
        by (rule rtranclp.rtrancl_into_rtrancl [OF r_into_rtranclp])
      then show ?thesis
        using Some b' by (intro exI [of _ ?s2]) (simp add: signal_flushed_def)
    qed
  qed
qed

text \<open>What the contract of the inner deliverer gives the whole operations.\<close>

context batch_contract
begin

lemma batch_deliver_nil:
  assumes "batch_deliver D ctx ev b w = ((b', w'), None)"
  shows "ev \<in> set (bt_buffer b') \<or> batch_received (bt_buffer b @ [ev]) w'"
proof (cases "deliver_locked ctx ev b")
  case (Pair b1 batch)
  show ?thesis
  proof (cases batch)
    case None
    with assms Pair deliver_locked_None [of ctx ev b b1] show ?thesis
      by (auto simp: batch_deliver_def)
  next
    case (Some bat)
    with assms Pair have "deliver_batch D bat (flush_metrics ''size'' bat w) = (w', None)"
      by (auto simp: batch_deliver_def split: prod.splits)
    with batch_nil Some Pair deliver_locked_Some [of ctx ev b b1 bat] show ?thesis
      by auto
  qed
qed

lemma batch_deliver_grows:
  assumes "batch_deliver D ctx ev b w = ((b', w'), r)"
  shows "grows w w'"
proof -
  have "grows w (flush_metrics trigger bat w)" for trigger and bat :: "'a change_event list"
    by (simp add: flush_metrics_def grows_intros)
  with assms show ?thesis
    by (auto simp: batch_deliver_def split: prod.splits option.splits dest: batch_grows intro: grows_trans)
qed

end

section \<open>Properties\<close>

text \<open>
  C6. Under any interleaving of deliveries, timers, \<open>Close\<close> and inner calls, the batches in the
  order they were cut, followed by the buffer, are exactly the events given, in their order; every
  batch is under way, delivered or refused, exactly once; none is empty or above the maximal size,
  and the buffer stays below it.
\<close>

theorem batch_conserves_events:
  assumes "batch_reachable max_size s"
  shows "concat (bs_taken s) @ bt_buffer (bs_sink s) = bs_given s
    \<and> mset (bs_taken s) = image_mset snd (bs_flight s) + bs_delivered s + image_mset snd (bs_refused s)
    \<and> (\<forall>batch \<in> set (bs_taken s). batch \<noteq> [] \<and> length batch \<le> max 1 (nat max_size))
    \<and> length (bt_buffer (bs_sink s)) < max 1 (nat max_size)"
  using batch_reachable_inv [OF assms] by (auto simp: taken_ok_def sizes_ok_def batch_bound_def)

text \<open>
  C17. An event can be lost although its \<open>Deliver\<close> gave \<open>nil\<close>: buffered, taken by the timer and
  refused by the destination, it is neither in the buffer nor under way nor delivered, no timer is
  left, and nobody was told. This is against the contract of \<open>Sink\<close>, on which at-least-once
  delivery rests.
\<close>

theorem acknowledged_event_lost:
  assumes "1 < max_size"
  shows "\<exists>s. batch_reachable max_size s \<and> bs_given s = [ev] \<and> bs_acked s = {#ev#}
    \<and> bs_refused s = {#(ByTime (Some ctx), [ev])#} \<and> bs_delivered s = {#} \<and> bs_flight s = {#}
    \<and> bt_buffer (bs_sink s) = [] \<and> bt_armed (bs_sink s) = {} \<and> bt_fired (bs_sink s) = {}"
proof -
  have new: "new_batch_sink max_size = Some (empty_batcher max_size)"
    using assms by (simp add: new_batch_sink_def)
  let ?s0 = "start_system (empty_batcher max_size) :: 'a batch_system"
  let ?b1 = "(empty_batcher max_size)\<lparr>bt_flush_ctx := Some ctx, bt_buffer := [ev], bt_armed := {0},
    bt_timer := Some 0, bt_fresh := 1\<rparr>"
  let ?s1 = "?s0\<lparr>bs_sink := ?b1, bs_given := [ev], bs_acked := {#ev#}\<rparr>"
  let ?s2 = "?s1\<lparr>bs_sink := ?b1\<lparr>bt_armed := {}, bt_fired := {0}\<rparr>\<rparr>"
  let ?b3 = "?b1\<lparr>bt_armed := {}, bt_fired := {}, bt_buffer := []\<rparr>"
  let ?s3 = "?s2\<lparr>bs_sink := ?b3, bs_taken := [[ev]], bs_flight := {#(ByTime (Some ctx), [ev])#}\<rparr>"
  let ?s4 = "?s3\<lparr>bs_sink := ?b3\<lparr>bt_flushed := True\<rparr>, bs_flight := {#}, bs_refused := {#(ByTime (Some ctx), [ev])#}\<rparr>"
  have "deliver_locked ctx ev (bs_sink ?s0) = (?b1, None)"
    using assms by (simp add: start_system_def empty_batcher_def batcher_defs)
  then have 1: "batch_step ?s0 ?s1"
    using batch_step.buffered [of ctx ev ?s0 ?b1] by (simp add: start_system_def)
  have 2: "batch_step ?s1 ?s2"
    using batch_step.fires [of 0 ?s1] by (simp add: empty_batcher_def)
  have "callback_locked 0 (bs_sink ?s2) = (?b3, [ev], Some ctx)"
    by (simp add: batcher_defs empty_batcher_def)
  then have 3: "batch_step ?s2 ?s3"
    using batch_step.called_back [of 0 ?s2 ?b3 "[ev]" "Some ctx"] by (simp add: start_system_def)
  have 4: "batch_step ?s3 ?s4"
    using batch_step.fails [of ?s3 "ByTime (Some ctx)" "[ev]" "{#}"]
    by (simp add: start_system_def signal_flushed_def)
  note go = batch_reachable.batch_next
  have "batch_reachable max_size ?s4"
    by (rule go [OF go [OF go [OF go [OF batch_reachable.batch_start [OF new] 1] 2] 3] 4])
  then show ?thesis
    by (intro exI [of _ ?s4]) (simp add: start_system_def empty_batcher_def)
qed

text \<open>
  Batches can overtake each other: the inner calls run outside the mutex, so a batch filled
  later can be delivered while an earlier one, taken by the timer, is still under way.
\<close>

theorem later_batch_overtakes:
  "\<exists>s. batch_reachable 2 s \<and> bs_given s = [e1, e2, e3] \<and> bs_taken s = [[e1], [e2, e3]]
    \<and> bs_delivered s = {#[e2, e3]#} \<and> bs_flight s = {#(ByTime (Some ctx), [e1])#}"
proof -
  have new: "new_batch_sink 2 = Some (empty_batcher 2)"
    by (simp add: new_batch_sink_def)
  let ?s0 = "start_system (empty_batcher 2) :: 'a batch_system"
  let ?b1 = "(empty_batcher 2)\<lparr>bt_flush_ctx := Some ctx, bt_buffer := [e1], bt_armed := {0},
    bt_timer := Some 0, bt_fresh := 1\<rparr>"
  let ?s1 = "?s0\<lparr>bs_sink := ?b1, bs_given := [e1], bs_acked := {#e1#}\<rparr>"
  let ?s2 = "?s1\<lparr>bs_sink := ?b1\<lparr>bt_armed := {}, bt_fired := {0}\<rparr>\<rparr>"
  let ?b3 = "?b1\<lparr>bt_armed := {}, bt_fired := {}, bt_buffer := []\<rparr>"
  let ?s3 = "?s2\<lparr>bs_sink := ?b3, bs_taken := [[e1]], bs_flight := {#(ByTime (Some ctx), [e1])#}\<rparr>"
  let ?b4 = "?b3\<lparr>bt_buffer := [e2], bt_armed := {1}, bt_timer := Some 1, bt_fresh := 2\<rparr>"
  let ?s4 = "?s3\<lparr>bs_sink := ?b4, bs_given := [e1, e2], bs_acked := {#e1, e2#}\<rparr>"
  let ?b5 = "?b4\<lparr>bt_buffer := [], bt_armed := {}, bt_timer := None\<rparr>"
  let ?s5 = "?s4\<lparr>bs_sink := ?b5, bs_given := [e1, e2, e3], bs_taken := [[e1], [e2, e3]],
    bs_flight := {#(BySize ctx, [e2, e3]), (ByTime (Some ctx), [e1])#}\<rparr>"
  let ?s6 = "?s5\<lparr>bs_flight := {#(ByTime (Some ctx), [e1])#}, bs_delivered := {#[e2, e3]#},
    bs_acked := {#e1, e2, e3#}\<rparr>"
  have "deliver_locked ctx e1 (bs_sink ?s0) = (?b1, None)"
    by (simp add: start_system_def empty_batcher_def batcher_defs)
  then have 1: "batch_step ?s0 ?s1"
    using batch_step.buffered [of ctx e1 ?s0 ?b1] by (simp add: start_system_def)
  have 2: "batch_step ?s1 ?s2"
    using batch_step.fires [of 0 ?s1] by (simp add: empty_batcher_def)
  have "callback_locked 0 (bs_sink ?s2) = (?b3, [e1], Some ctx)"
    by (simp add: batcher_defs empty_batcher_def)
  then have 3: "batch_step ?s2 ?s3"
    using batch_step.called_back [of 0 ?s2 ?b3 "[e1]" "Some ctx"] by (simp add: start_system_def)
  have "deliver_locked ctx e2 (bs_sink ?s3) = (?b4, None)"
    by (simp add: batcher_defs empty_batcher_def)
  then have 4: "batch_step ?s3 ?s4"
    using batch_step.buffered [of ctx e2 ?s3 ?b4] by (simp add: add_mset_commute)
  have "deliver_locked ctx e3 (bs_sink ?s4) = (?b5, Some [e2, e3])"
    by (simp add: batcher_defs empty_batcher_def)
  then have 5: "batch_step ?s4 ?s5"
    using batch_step.filled [of ctx e3 ?s4 ?b5 "[e2, e3]"] by simp
  have 6: "batch_step ?s5 ?s6"
    using batch_step.succeeds [of ?s5 "BySize ctx" "[e2, e3]" "{#(ByTime (Some ctx), [e1])#}"]
    by (simp add: start_system_def signal_flushed_def ack_on_success_def add_mset_commute)
  note go = batch_reachable.batch_next
  have "batch_reachable 2 ?s6"
    by (rule go [OF go [OF go [OF go [OF go [OF go [OF batch_reachable.batch_start [OF new] 1] 2] 3] 4] 5] 6])
  then show ?thesis
    by (intro exI [of _ ?s6]) simp
qed

section \<open>Concrete instances of the properties\<close>

lemma sample_batch_reachable: "\<exists>s. batch_reachable 2 s \<and> bs_given s = [7 :: nat] \<and> bt_buffer (bs_sink s) = [7]"
proof -
  have new: "new_batch_sink 2 = Some (empty_batcher 2)"
    by (simp add: new_batch_sink_def)
  let ?s0 = "start_system (empty_batcher 2) :: nat batch_system"
  let ?b1 = "(empty_batcher 2)\<lparr>bt_flush_ctx := Some 0, bt_buffer := [7], bt_armed := {0},
    bt_timer := Some 0, bt_fresh := 1\<rparr>"
  have "deliver_locked 0 7 (bs_sink ?s0) = (?b1, None)"
    by (simp add: start_system_def empty_batcher_def batcher_defs)
  note run = batch_reachable.batch_next [OF batch_reachable.batch_start [OF new] batch_step.buffered [OF this]]
  show ?thesis
    by (rule exI, rule conjI, rule run) (simp add: start_system_def)
qed

theorem batch_conserves_events_witness:
  "\<exists>s. batch_reachable 2 s \<and> concat (bs_taken s) @ bt_buffer (bs_sink s) = [7 :: nat]"
proof -
  obtain s :: "nat batch_system" where s: "batch_reachable 2 s" "bs_given s = [7]"
    using sample_batch_reachable by blast
  with batch_conserves_events [OF s(1)] show ?thesis by auto
qed

theorem acknowledged_event_lost_witness:
  "\<exists>s. batch_reachable 2 s \<and> bs_acked s = {#7 :: nat#} \<and> bs_delivered s = {#} \<and> bs_flight s = {#}
     \<and> bt_buffer (bs_sink s) = []"
  using acknowledged_event_lost [of 2 "7 :: nat" 0] by auto

end
