(* ===== verification/Batch_Timing.thy ===== *)
theory Batch_Timing
  imports Batch
begin

text \<open>
  The batching sink of \<open>internal/sink/batch.go\<close> in time: how long an event can wait in the buffer
  before it is cut into a batch. \<open>time.AfterFunc(b.maxWait, ...)\<close> gives the timer a deadline; it
  does not fire before. The runtime is taken to be prompt: no time passes beyond a deadline, nor
  while a callback that has fired waits for the mutex, which is only ever held for a few
  assignments.
\<close>

section \<open>Timed steps\<close>

text \<open>The system with the time, the deadlines of its timers, and, for the statements, when each
  event in the buffer came in.\<close>

record 'e timed_system =
  tm_system :: "'e batch_system"
  tm_now :: time
  tm_deadline :: "nat \<Rightarrow> time"
  tm_entered :: "time list"

abbreviation armed :: "'e batch_system \<Rightarrow> nat set" where
  "armed s \<equiv> bt_armed (bs_sink s)"

abbreviation fired :: "'e batch_system \<Rightarrow> nat set" where
  "fired s \<equiv> bt_fired (bs_sink s)"

abbreviation waiting :: "'e batch_system \<Rightarrow> 'e list" where
  "waiting s \<equiv> bt_buffer (bs_sink s)"

definition set_deadlines :: "int \<Rightarrow> 'e batch_system \<Rightarrow> 'e timed_system \<Rightarrow> nat \<Rightarrow> time" where
  "set_deadlines max_wait s' ts =
     (\<lambda>t. if t \<in> armed s' - armed (tm_system ts) then tm_now ts + max_wait else tm_deadline ts t)"

definition note_entered :: "'e batch_system \<Rightarrow> 'e timed_system \<Rightarrow> time list" where
  "note_entered s' ts =
     (if length (waiting s') \<le> length (tm_entered ts) then take (length (waiting s')) (tm_entered ts)
      else tm_entered ts @ [tm_now ts])"

inductive timed_step :: "int \<Rightarrow> 'e timed_system \<Rightarrow> 'e timed_system \<Rightarrow> bool" for max_wait where
  acts: "batch_step (tm_system ts) s' \<Longrightarrow> \<forall>t \<in> fired s' - fired (tm_system ts). tm_deadline ts t \<le> tm_now ts \<Longrightarrow>
    timed_step max_wait ts (ts\<lparr>tm_system := s', tm_deadline := set_deadlines max_wait s' ts,
      tm_entered := note_entered s' ts\<rparr>)"
| elapses: "tm_now ts \<le> now' \<Longrightarrow> fired (tm_system ts) = {} \<Longrightarrow>
    \<forall>t \<in> armed (tm_system ts). now' \<le> tm_deadline ts t \<Longrightarrow>
    timed_step max_wait ts (ts\<lparr>tm_now := now'\<rparr>)"

inductive timed_reachable :: "int \<Rightarrow> int \<Rightarrow> 'e timed_system \<Rightarrow> bool" for max_size max_wait where
  timed_start: "new_batch_sink max_size = Some b \<Longrightarrow>
    timed_reachable max_size max_wait
      \<lparr>tm_system = start_system b, tm_now = start, tm_deadline = (\<lambda>t. 0), tm_entered = []\<rparr>"
| timed_next: "timed_reachable max_size max_wait ts \<Longrightarrow> timed_step max_wait ts ts' \<Longrightarrow>
    timed_reachable max_size max_wait ts'"

text \<open>Forgetting the time gives a run of the untimed system.\<close>

lemma timed_untimed: "timed_reachable max_size max_wait ts \<Longrightarrow> batch_reachable max_size (tm_system ts)"
proof (induction rule: timed_reachable.induct)
  case (timed_start b start)
  then show ?case by (simp add: batch_reachable.batch_start)
next
  case (timed_next ts ts')
  from timed_next.hyps(2) timed_next.IH show ?case
    by (cases rule: timed_step.cases) (auto intro: batch_reachable.batch_next)
qed

section \<open>The invariant\<close>

text \<open>What one step of the sink does to the buffer and the timers: it empties the buffer, leaves it
  with the timers at most fired, or adds an event, starting a timer for the first.\<close>

definition timers_bounded :: "'e batch_system \<Rightarrow> bool" where
  "timers_bounded s \<longleftrightarrow> (\<forall>t \<in> armed s. t < bt_fresh (bs_sink s))"

lemma timers_bounded_step: "batch_step s s' \<Longrightarrow> timers_bounded s \<Longrightarrow> timers_bounded s'"
  by (induction rule: batch_step.induct)
    (auto simp: timers_bounded_def batcher_defs signal_flushed_def less_Suc_eq split: if_splits option.splits origin.splits)

lemma batch_step_shape:
  assumes "batch_step s s'"
  obtains "waiting s' = []"
  | "waiting s' = waiting s" "bt_timer (bs_sink s') = bt_timer (bs_sink s)" "armed s' \<subseteq> armed s"
    "armed s \<subseteq> armed s' \<union> fired s'" "fired s \<subseteq> fired s'"
  | ev where "waiting s' = waiting s @ [ev]" "waiting s \<noteq> []" "bt_timer (bs_sink s') = bt_timer (bs_sink s)"
    "armed s' = armed s" "fired s' = fired s"
  | ev where "waiting s' = [ev]" "waiting s = []" "bt_timer (bs_sink s') = Some (bt_fresh (bs_sink s))"
    "bt_fresh (bs_sink s) \<in> armed s'"
  using assms
proof (induction rule: batch_step.induct)
  case (buffered ctx ev s b)
  then show ?case
    by (cases "waiting s = []") (auto simp: batcher_defs split: if_splits option.splits)
next
  case (filled ctx ev s b batch)
  with deliver_locked_Some [OF filled(1)] show ?case by simp
next
  case (fires t s)
  then show ?case by auto
next
  case (called_back t s b batch ctx)
  with callback_locked_eq [OF called_back(2)] show ?case by simp
next
  case (called_back_empty t s b ctx)
  with callback_locked_eq [OF called_back_empty(2)] show ?case by simp
next
  case (closed s b batch)
  with close_locked_eq [OF closed(1)] show ?case by simp
next
  case (closed_empty s b)
  with close_locked_eq [OF closed_empty(1)] show ?case by simp
qed simp_all

definition deadline_met :: "int \<Rightarrow> 'e timed_system \<Rightarrow> bool" where
  "deadline_met max_wait ts \<longleftrightarrow> length (tm_entered ts) = length (waiting (tm_system ts))
     \<and> (\<forall>e \<in> set (tm_entered ts). hd (tm_entered ts) \<le> e \<and> e \<le> tm_now ts)
     \<and> (tm_entered ts \<noteq> [] \<longrightarrow> tm_now ts \<le> hd (tm_entered ts) + max_wait
        \<and> (\<exists>t. bt_timer (bs_sink (tm_system ts)) = Some t
           \<and> (t \<in> armed (tm_system ts) \<and> tm_deadline ts t \<le> hd (tm_entered ts) + max_wait \<or> t \<in> fired (tm_system ts))))"

lemma deadline_met_acts:
  assumes "batch_step (tm_system ts) s'" and "deadline_met max_wait ts" and "timers_bounded (tm_system ts)" and "0 \<le> max_wait"
  shows "deadline_met max_wait (ts\<lparr>tm_system := s', tm_deadline := set_deadlines max_wait s' ts,
    tm_entered := note_entered s' ts\<rparr>)"
proof -
  let ?s = "tm_system ts"
  have len: "length (tm_entered ts) = length (waiting ?s)"
    using assms(2) by (simp add: deadline_met_def)
  from assms(1) show ?thesis
  proof (cases rule: batch_step_shape)
    case 1
    then show ?thesis by (simp add: deadline_met_def note_entered_def)
  next
    case 2
    then have same: "note_entered s' ts = tm_entered ts" "set_deadlines max_wait s' ts = tm_deadline ts"
      using len by (auto simp: note_entered_def set_deadlines_def fun_eq_iff)
    have "\<exists>t. bt_timer (bs_sink s') = Some t
        \<and> (t \<in> armed s' \<and> tm_deadline ts t \<le> hd (tm_entered ts) + max_wait \<or> t \<in> fired s')"
      if ne: "tm_entered ts \<noteq> []"
    proof -
      obtain t where t: "bt_timer (bs_sink ?s) = Some t"
        and "t \<in> armed ?s \<and> tm_deadline ts t \<le> hd (tm_entered ts) + max_wait \<or> t \<in> fired ?s"
        using assms(2) ne unfolding deadline_met_def by blast
      with 2(4,5) have "t \<in> armed s' \<and> tm_deadline ts t \<le> hd (tm_entered ts) + max_wait \<or> t \<in> fired s'"
        by blast
      with t 2(2) show ?thesis by simp
    qed
    with assms(2) 2(1) show ?thesis
      unfolding deadline_met_def by (simp add: same)
  next
    case (3 ev)
    then have same: "note_entered s' ts = tm_entered ts @ [tm_now ts]" "set_deadlines max_wait s' ts = tm_deadline ts"
        and ne: "tm_entered ts \<noteq> []"
      using len by (auto simp: note_entered_def set_deadlines_def fun_eq_iff)
    have "hd (tm_entered ts) \<le> tm_now ts"
      using assms(2) hd_in_set [OF ne] by (auto simp: deadline_met_def)
    with 3 assms(2) ne show ?thesis
      unfolding deadline_met_def by (simp add: same)
  next
    case (4 ev)
    then have "bt_fresh (bs_sink ?s) \<notin> armed ?s" and "tm_entered ts = []"
      using assms(3) len by (auto simp: timers_bounded_def)
    with 4 assms(4) show ?thesis
      by (simp add: deadline_met_def note_entered_def set_deadlines_def)
  qed
qed

lemma deadline_met_step:
  assumes "timed_step max_wait ts ts'" and "deadline_met max_wait ts" and "timers_bounded (tm_system ts)" and "0 \<le> max_wait"
  shows "deadline_met max_wait ts'"
  using assms(1)
proof (cases rule: timed_step.cases)
  case (acts s')
  then show ?thesis
    using deadline_met_acts [OF _ assms(2-4)] by simp
next
  case (elapses now')
  then show ?thesis
    using assms(2) by (fastforce simp: deadline_met_def)
qed

lemma timed_reachable_inv:
  assumes "timed_reachable max_size max_wait ts" and "0 \<le> max_wait"
  shows "deadline_met max_wait ts \<and> timers_bounded (tm_system ts)"
  using assms(1)
proof (induction rule: timed_reachable.induct)
  case (timed_start b start)
  then show ?case
    by (auto simp: new_batch_sink_def deadline_met_def timers_bounded_def start_system_def empty_batcher_def
        split: if_splits)
next
  case (timed_next ts ts')
  have "timers_bounded (tm_system ts')"
    using timed_next.hyps(2) timed_next.IH by cases (auto intro: timers_bounded_step)
  with deadline_met_step [OF timed_next.hyps(2) _ _ assms(2)] timed_next.IH show ?case
    by blast
qed

lemma timed_acts:
  assumes "timed_reachable max_size max_wait ts" and "batch_step (tm_system ts) s'"
    and "\<forall>t \<in> fired s' - fired (tm_system ts). tm_deadline ts t \<le> tm_now ts"
  shows "timed_reachable max_size max_wait (ts\<lparr>tm_system := s', tm_deadline := set_deadlines max_wait s' ts,
    tm_entered := note_entered s' ts\<rparr>)"
  using timed_next [OF assms(1) timed_step.acts [OF assms(2,3)]] .

text \<open>The sink, of size 2, in the run below: \<open>e1\<close> comes in, its timer fires, \<open>e2\<close> fills the batch, \<open>e3\<close>
  comes in, and the callback of the first timer cuts it.\<close>

abbreviation stale_1 :: "'e \<Rightarrow> 'e batch_system" where
  "stale_1 e1 \<equiv> (start_system (empty_batcher 2))\<lparr>bs_sink := (empty_batcher 2)\<lparr>bt_flush_ctx := Some 0,
     bt_buffer := [e1], bt_armed := {0}, bt_timer := Some 0, bt_fresh := 1\<rparr>, bs_given := [e1], bs_acked := {#e1#}\<rparr>"

abbreviation stale_2 :: "'e \<Rightarrow> 'e batch_system" where
  "stale_2 e1 \<equiv> (stale_1 e1)\<lparr>bs_sink := (bs_sink (stale_1 e1))\<lparr>bt_armed := {}, bt_fired := {0}\<rparr>\<rparr>"

abbreviation stale_3 :: "'e \<Rightarrow> 'e \<Rightarrow> 'e batch_system" where
  "stale_3 e1 e2 \<equiv> (stale_2 e1)\<lparr>bs_sink := (bs_sink (stale_2 e1))\<lparr>bt_buffer := [], bt_timer := None\<rparr>,
     bs_given := [e1, e2], bs_taken := [[e1, e2]], bs_flight := {#(BySize 0, [e1, e2])#}\<rparr>"

abbreviation stale_4 :: "'e \<Rightarrow> 'e \<Rightarrow> 'e \<Rightarrow> 'e batch_system" where
  "stale_4 e1 e2 e3 \<equiv> (stale_3 e1 e2)\<lparr>bs_sink := (bs_sink (stale_3 e1 e2))\<lparr>bt_buffer := [e3], bt_armed := {1},
     bt_timer := Some 1, bt_fresh := 2\<rparr>, bs_given := [e1, e2, e3], bs_acked := {#e3, e1#}\<rparr>"

abbreviation stale_5 :: "'e \<Rightarrow> 'e \<Rightarrow> 'e \<Rightarrow> 'e batch_system" where
  "stale_5 e1 e2 e3 \<equiv> (stale_4 e1 e2 e3)\<lparr>bs_sink := (bs_sink (stale_4 e1 e2 e3))\<lparr>bt_buffer := [], bt_fired := {}\<rparr>,
     bs_taken := [[e1, e2], [e3]], bs_flight := {#(ByTime (Some 0), [e3]), (BySize 0, [e1, e2])#}\<rparr>"

lemma stale_steps:
  "batch_step (start_system (empty_batcher 2)) (stale_1 e1)" "batch_step (stale_1 e1) (stale_2 e1)"
  "batch_step (stale_2 e1) (stale_3 e1 e2)" "batch_step (stale_3 e1 e2) (stale_4 e1 e2 e3)"
proof -
  note sink = start_system_def empty_batcher_def batcher_defs
  show "batch_step (start_system (empty_batcher 2)) (stale_1 e1)"
    using batch_step.buffered [of 0 e1 "start_system (empty_batcher 2)" "bs_sink (stale_1 e1)"] by (simp add: sink)
  show "batch_step (stale_1 e1) (stale_2 e1)"
    using batch_step.fires [of 0 "stale_1 e1"] by (simp add: sink)
  show "batch_step (stale_2 e1) (stale_3 e1 e2)"
    using batch_step.filled [of 0 e2 "stale_2 e1" "bs_sink (stale_3 e1 e2)" "[e1, e2]"] by (simp add: sink)
  show "batch_step (stale_3 e1 e2) (stale_4 e1 e2 e3)"
    using batch_step.buffered [of 0 e3 "stale_3 e1 e2" "bs_sink (stale_4 e1 e2 e3)"] by (simp add: sink)
qed

lemma stale_cut: "batch_step (stale_4 e1 e2 e3) (stale_5 e1 e2 e3)"
  using batch_step.called_back [of 0 "stale_4 e1 e2 e3" "bs_sink (stale_5 e1 e2 e3)" "[e3]" "Some 0"]
  by (simp add: empty_batcher_def start_system_def batcher_defs)

section \<open>Properties\<close>

text \<open>
  C28. No event waits in the buffer longer than \<open>maxWait\<close>: whatever is delivered, flushed, closed or
  refused, and in whatever order, every event in the buffer came in at most \<open>maxWait\<close> ago.
\<close>

theorem batch_wait_bounded:
  assumes "timed_reachable max_size max_wait ts" and "0 \<le> max_wait"
  shows "length (tm_entered ts) = length (bt_buffer (bs_sink (tm_system ts)))
    \<and> (\<forall>entered \<in> set (tm_entered ts). 0 \<le> tm_now ts - entered \<and> tm_now ts - entered \<le> max_wait)"
  using timed_reachable_inv [OF assms] by (fastforce simp: deadline_met_def)

text \<open>
  But an event can be flushed long before: a timer that fired just before its batch was filled
  cannot be stopped any more, and its callback cuts whatever the buffer has by then. Here the
  third event is cut into a batch of one at the very moment it comes in, whatever \<open>maxWait\<close> is.
\<close>

theorem stale_timer_flushes_early:
  assumes "0 \<le> max_wait"
  shows "\<exists>ts ts'. timed_reachable 2 max_wait ts \<and> timed_step max_wait ts ts'
    \<and> bt_buffer (bs_sink (tm_system ts)) = [e3] \<and> tm_entered ts = [tm_now ts]
    \<and> bs_taken (tm_system ts) = [[e1, e2]] \<and> bs_taken (tm_system ts') = [[e1, e2], [e3]] \<and> tm_now ts' = tm_now ts"
proof -
  have new: "new_batch_sink 2 = Some (empty_batcher 2)"
    by (simp add: new_batch_sink_def)
  let ?s0 = "start_system (empty_batcher 2)"
  let ?t = "\<lambda>s now dl ent. \<lparr>tm_system = s, tm_now = now, tm_deadline = dl, tm_entered = ent\<rparr>"
  note empty = start_system_def empty_batcher_def
  have "timed_reachable 2 max_wait (?t ?s0 0 (\<lambda>t. 0) [])"
    by (rule timed_start [OF new])
  from timed_acts [OF this, of "stale_1 e1"] stale_steps(1) [where ?e1.0 = e1] obtain d1
    where r1: "timed_reachable 2 max_wait (?t (stale_1 e1) 0 d1 [0])" and d1: "d1 0 = max_wait"
    by (auto simp: empty set_deadlines_def note_entered_def)
  have "timed_step max_wait (?t (stale_1 e1) 0 d1 [0]) (?t (stale_1 e1) max_wait d1 [0])"
    using timed_step.elapses [of "?t (stale_1 e1) 0 d1 [0]" max_wait max_wait] assms d1 by (simp add: empty)
  from timed_acts [OF timed_next [OF r1 this], of "stale_2 e1"] stale_steps(2) [where ?e1.0 = e1] d1 obtain d3
    where "timed_reachable 2 max_wait (?t (stale_2 e1) max_wait d3 [0])"
    by (auto simp: empty note_entered_def)
  from timed_acts [OF this, of "stale_3 e1 e2"] stale_steps(3) [where ?e1.0 = e1 and ?e2.0 = e2] obtain d4
    where "timed_reachable 2 max_wait (?t (stale_3 e1 e2) max_wait d4 [])"
    by (auto simp: empty note_entered_def)
  from timed_acts [OF this, of "stale_4 e1 e2 e3"]
    stale_steps(4) [where ?e1.0 = e1 and ?e2.0 = e2 and ?e3.0 = e3] obtain d5
    where r5: "timed_reachable 2 max_wait (?t (stale_4 e1 e2 e3) max_wait d5 [max_wait])"
    by (auto simp: empty note_entered_def)
  let ?ts = "?t (stale_4 e1 e2 e3) max_wait d5 [max_wait]"
  have "timed_step max_wait ?ts (?ts\<lparr>tm_system := stale_5 e1 e2 e3,
      tm_deadline := set_deadlines max_wait (stale_5 e1 e2 e3) ?ts, tm_entered := note_entered (stale_5 e1 e2 e3) ?ts\<rparr>)"
    by (rule timed_step.acts) (use stale_cut [where ?e1.0 = e1 and ?e2.0 = e2 and ?e3.0 = e3] in \<open>simp_all add: empty\<close>)
  with r5 show ?thesis
    by (intro exI [of _ ?ts] exI conjI) (assumption | simp)+
qed

section \<open>Concrete instances of the properties\<close>

text \<open>One event, which has waited for the whole half second.\<close>

theorem batch_wait_bounded_witness:
  "\<exists>ts :: nat timed_system. timed_reachable 2 500 ts \<and> bt_buffer (bs_sink (tm_system ts)) = [7]
     \<and> tm_entered ts = [tm_now ts - 500] \<and> length (tm_entered ts) = 1"
proof -
  have new: "new_batch_sink 2 = Some (empty_batcher 2)"
    by (simp add: new_batch_sink_def)
  let ?b = "(empty_batcher 2)\<lparr>bt_flush_ctx := Some 0, bt_buffer := [7], bt_armed := {0}, bt_timer := Some 0, bt_fresh := 1\<rparr>"
  let ?s0 = "start_system (empty_batcher 2) :: nat batch_system"
  let ?s1 = "?s0\<lparr>bs_sink := ?b, bs_given := [7], bs_acked := {#7#}\<rparr>"
  let ?t = "\<lambda>s now dl ent. \<lparr>tm_system = s, tm_now = now, tm_deadline = dl, tm_entered = ent\<rparr>"
  have "batch_step ?s0 ?s1"
    using batch_step.buffered [of 0 7 ?s0 ?b] by (simp add: start_system_def empty_batcher_def batcher_defs)
  with timed_acts [OF timed_start [OF new, of 500 0], of ?s1] obtain d
    where r: "timed_reachable 2 500 (?t ?s1 0 d [0])" and d: "d 0 = 500"
    by (auto simp: start_system_def empty_batcher_def set_deadlines_def note_entered_def)
  have "timed_step 500 (?t ?s1 0 d [0]) (?t ?s1 500 d [0])"
    using timed_step.elapses [of "?t ?s1 0 d [0]" 500 500] d by (simp add: start_system_def empty_batcher_def)
  from timed_next [OF r this] batch_wait_bounded [OF timed_next [OF r this]] show ?thesis
    by (intro exI [of _ "?t ?s1 500 d [0]"]) simp
qed

theorem stale_timer_flushes_early_witness:
  "\<exists>ts :: nat timed_system. timed_reachable 2 500 ts \<and> bs_taken (tm_system ts) = [[1, 2], [3]]"
  using stale_timer_flushes_early [of 500 "3 :: nat" 1 2] timed_next by fastforce

end
