(* ===== verification/Batch_Liveness.thy ===== *)
theory Batch_Liveness
  imports Batch_Timing
begin

text \<open>
  Progress of the batching sink of \<open>internal/sink/batch.go\<close>: on a fair run no event stays in the
  buffer for ever. A run is an infinite sequence of states, from \<open>NewBatchSink\<close> on, of which each
  is the one before or a step of it. Fair is what the runtime promises: a timer that runs does not
  run for ever (it fires, or is stopped), and a callback that waits for the mutex gets it.
\<close>

section \<open>Runs\<close>

definition batch_run :: "int \<Rightarrow> (nat \<Rightarrow> 'e batch_system) \<Rightarrow> bool" where
  "batch_run max_size run \<longleftrightarrow> (\<exists>b. new_batch_sink max_size = Some b \<and> run 0 = start_system b)
     \<and> (\<forall>i. run (Suc i) = run i \<or> batch_step (run i) (run (Suc i)))"

definition fair_run :: "(nat \<Rightarrow> 'e batch_system) \<Rightarrow> bool" where
  "fair_run run \<longleftrightarrow> (\<forall>i t. t \<in> armed (run i) \<longrightarrow> (\<exists>j \<ge> i. t \<notin> armed (run j)))
     \<and> (\<forall>i t. t \<in> fired (run i) \<longrightarrow> (\<exists>j \<ge> i. t \<notin> fired (run j)))"

lemma batch_run_reachable: "batch_run max_size run \<Longrightarrow> batch_reachable max_size (run i)"
proof (induction i)
  case 0
  then show ?case by (auto simp: batch_run_def batch_reachable.batch_start)
next
  case (Suc i)
  then show ?case unfolding batch_run_def by (metis batch_reachable.batch_next)
qed

section \<open>What stays the same while nothing is cut\<close>

lemma batch_step_given: "batch_step s s' \<Longrightarrow> \<exists>evs. bs_given s' = bs_given s @ evs"
  by (induction rule: batch_step.induct) auto

lemma batch_run_given:
  assumes "batch_run max_size run" and "i \<le> j"
  shows "\<exists>evs. bs_given (run j) = bs_given (run i) @ evs"
  using assms(2)
proof (induction j rule: dec_induct)
  case (step n)
  have "run (Suc n) = run n \<or> batch_step (run n) (run (Suc n))"
    using assms(1) by (simp add: batch_run_def)
  with step.IH show ?case
    using batch_step_given [of "run n" "run (Suc n)"] by auto
qed simp

text \<open>A step that does not empty the buffer keeps the timer, and starts none.\<close>

lemma batch_run_keeps:
  assumes "batch_run max_size run" and "waiting (run i) \<noteq> []" and "waiting (run (Suc i)) \<noteq> []"
  shows "bt_timer (bs_sink (run (Suc i))) = bt_timer (bs_sink (run i))" and "armed (run (Suc i)) \<subseteq> armed (run i)"
proof -
  have "run (Suc i) = run i \<or> batch_step (run i) (run (Suc i))"
    using assms(1) by (simp add: batch_run_def)
  then have "bt_timer (bs_sink (run (Suc i))) = bt_timer (bs_sink (run i)) \<and> armed (run (Suc i)) \<subseteq> armed (run i)"
  proof
    assume "batch_step (run i) (run (Suc i))"
    then show ?thesis
      by (cases rule: batch_step_shape) (use assms(2,3) in auto)
  qed simp
  then show "bt_timer (bs_sink (run (Suc i))) = bt_timer (bs_sink (run i))" and "armed (run (Suc i)) \<subseteq> armed (run i)"
    by simp_all
qed

lemma batch_run_stuck:
  assumes "batch_run max_size run" and "\<forall>j \<ge> i. waiting (run j) \<noteq> []" and "i \<le> j"
  shows "bt_timer (bs_sink (run j)) = bt_timer (bs_sink (run i))" and "armed (run j) \<subseteq> armed (run i)"
  using assms(3)
proof (induction j rule: dec_induct)
  case (step n)
  have "waiting (run n) \<noteq> []" and "waiting (run (Suc n)) \<noteq> []"
    using assms(2) step.hyps by auto
  note keeps = batch_run_keeps [OF assms(1) this]
  {
    case 1
    with step.IH keeps show ?case by simp
  next
    case 2
    with step.IH keeps show ?case by blast
  }
qed simp_all

text \<open>A buffer that is never emptied has one timer, which has to fire and then to call back.\<close>

lemma buffer_empties:
  assumes "batch_run max_size run" and "fair_run run"
  shows "\<exists>j \<ge> i. waiting (run j) = []"
proof (rule ccontr)
  assume "\<not> ?thesis"
  then have stuck: "\<forall>j \<ge> i. waiting (run j) \<noteq> []"
    by blast
  have timer: "\<exists>t. bt_timer (bs_sink (run j)) = Some t \<and> (t \<in> armed (run j) \<or> t \<in> fired (run j))" if "i \<le> j" for j
    using batch_reachable_inv(3) [OF batch_run_reachable [OF assms(1)], of j] stuck that by (simp add: timer_ok_def)
  obtain t where t: "bt_timer (bs_sink (run i)) = Some t"
    using timer by blast
  obtain j where j: "i \<le> j" "t \<notin> armed (run j)"
    using assms(2) unfolding fair_run_def by (metis order_refl)
  have stuck_j: "\<forall>k \<ge> j. waiting (run k) \<noteq> []"
    using stuck j(1) by auto
  have fired: "t \<in> fired (run k)" if "j \<le> k" for k
  proof -
    have "i \<le> k"
      using j(1) that by simp
    then have "bt_timer (bs_sink (run k)) = Some t" and "t \<notin> armed (run k)"
      using batch_run_stuck(1) [OF assms(1) stuck, of k] batch_run_stuck(2) [OF assms(1) stuck_j that] t j(2) by auto
    with timer [OF \<open>i \<le> k\<close>] show ?thesis by simp
  qed
  with assms(2) show False
    unfolding fair_run_def by blast
qed

section \<open>Property\<close>

text \<open>
  C27. Events never stay behind in the buffer: on a fair run, whatever is given, filled, closed,
  delivered or refused in between, everything given so far has some time later been cut into
  batches, in its order, and every batch cut has been handed to the inner deliverer: it is under
  way, delivered or refused.
\<close>

theorem given_events_get_taken:
  assumes "batch_run max_size run" and "fair_run run"
  shows "\<exists>j \<ge> i. (\<exists>later. concat (bs_taken (run j)) = bs_given (run i) @ later)
    \<and> mset (bs_taken (run j)) = image_mset snd (bs_flight (run j)) + bs_delivered (run j) + image_mset snd (bs_refused (run j))"
proof -
  obtain j where j: "i \<le> j" "waiting (run j) = []"
    using buffer_empties [OF assms] by blast
  have "taken_ok (run j)"
    using batch_reachable_inv(1) [OF batch_run_reachable [OF assms(1)]] .
  with j batch_run_given [OF assms(1) j(1)] show ?thesis
    by (auto simp: taken_ok_def)
qed

section \<open>A concrete instance\<close>

text \<open>One event, its timer, its callback, and nothing more.\<close>

theorem given_events_get_taken_witness:
  "\<exists>(run :: nat \<Rightarrow> nat batch_system) j. batch_run 2 run \<and> fair_run run \<and> bs_given (run 1) = [7]
    \<and> concat (bs_taken (run j)) = [7]"
proof -
  let ?s0 = "start_system (empty_batcher 2) :: nat batch_system"
  let ?b = "(empty_batcher 2)\<lparr>bt_flush_ctx := Some 0, bt_buffer := [7], bt_armed := {0}, bt_timer := Some 0, bt_fresh := 1\<rparr>"
  let ?s1 = "?s0\<lparr>bs_sink := ?b, bs_given := [7], bs_acked := {#7#}\<rparr>"
  let ?s2 = "?s1\<lparr>bs_sink := ?b\<lparr>bt_armed := {}, bt_fired := {0}\<rparr>\<rparr>"
  let ?s3 = "?s2\<lparr>bs_sink := ?b\<lparr>bt_armed := {}, bt_fired := {}, bt_buffer := []\<rparr>, bs_taken := [[7]],
    bs_flight := {#(ByTime (Some 0), [7])#}\<rparr>"
  let ?run = "\<lambda>i :: nat. if i = 0 then ?s0 else if i = 1 then ?s1 else if i = 2 then ?s2 else ?s3"
  have 1: "batch_step ?s0 ?s1"
    using batch_step.buffered [of 0 7 ?s0 ?b] by (simp add: start_system_def empty_batcher_def batcher_defs)
  have 2: "batch_step ?s1 ?s2"
    using batch_step.fires [of 0 ?s1] by (simp add: empty_batcher_def)
  have 3: "batch_step ?s2 ?s3"
    using batch_step.called_back [of 0 ?s2 "bs_sink ?s3" "[7]" "Some 0"]
    by (simp add: start_system_def empty_batcher_def batcher_defs)
  have "?run (Suc i) = ?run i \<or> batch_step (?run i) (?run (Suc i))" for i
  proof -
    consider "i = 0" | "i = 1" | "i = 2" | "2 < i" by linarith
    then show ?thesis
      by cases (use 1 2 3 in \<open>simp_all del: One_nat_def add: numeral_2_eq_2 numeral_3_eq_3\<close>)
  qed
  then have run: "batch_run 2 ?run"
    by (simp add: batch_run_def new_batch_sink_def)
  have "\<exists>j \<ge> i. t \<notin> armed (?run j)" "\<exists>j \<ge> i. t \<notin> fired (?run j)" for i t
    by (rule exI [of _ "i + 3"], simp)+
  then have fair: "fair_run ?run"
    unfolding fair_run_def by blast
  obtain j later where "concat (bs_taken (?run j)) = bs_given (?run 1) @ later"
    using given_events_get_taken [OF run fair, of 1] by blast
  then have "concat (bs_taken (?run j)) = [7]"
    by (auto simp: start_system_def split: if_splits)
  with run fair show ?thesis
    by (intro exI [of _ ?run] exI [of _ j]) simp
qed

end
