(* ===== verification/Stream_Setup.thy ===== *)
theory Stream_Setup
  imports Wal_Stream
begin

text \<open>
  \<open>internal/cdc/stream.go\<close>, the way into the loop: \<open>Run\<close>, \<open>ensurePublication\<close>,
  \<open>ensureSlot\<close> and \<open>getSlotLSN\<close>. Every function gives the list of commands it sends to the
  server, in order, and its result; what the server answers is the record \<open>server\<close>.
\<close>

datatype command =
    Connect string
  | IdentifySystem
  | Exec string "bytes list"
  | CreateSlot string string
  | StartReplication string lsn "string list"

text \<open>Outcomes of the calls of one \<open>Run\<close>: the three connections, the queries with their rows,
  the slot's consistent point, and the start of replication.\<close>

record server =
  sv_connect :: "gerr option"
  sv_identify :: "gerr option"
  sv_pub_connect :: "gerr option"
  sv_pub_rows :: "gerr + bytes list list"
  sv_create_pub :: "gerr option"
  sv_create_slot :: "gerr + string"
  sv_slot_connect :: "gerr option"
  sv_slot_rows :: "gerr + bytes list list"
  sv_start :: "gerr option"

definition publication_query :: string where
  "publication_query = ''SELECT 1 FROM pg_publication WHERE pubname = $1''"

definition slot_query :: string where
  "slot_query = ''SELECT confirmed_flush_lsn FROM pg_replication_slots WHERE slot_name = $1''"

definition publication_sql :: "(string set \<Rightarrow> string list) \<Rightarrow> stream \<Rightarrow> string" where
  "publication_sql order st =
     (let pub_sql = ''CREATE PUBLICATION '' @ st_publication st;
          tables = (case table_list order (st_filter st) of None \<Rightarrow> [] | Some ts \<Rightarrow> ts)
      in if length tables > 0 then pub_sql @ '' FOR TABLE '' @ join '', '' tables
         else pub_sql @ '' FOR ALL TABLES'')"

definition ensure_publication ::
    "(string set \<Rightarrow> string list) \<Rightarrow> server \<Rightarrow> stream \<Rightarrow> command list \<times> gerr option" where
  "ensure_publication order sv st =
     (let con = Connect (st_normal_conn st);
          look = Exec publication_query [st_publication st];
          create = Exec (publication_sql order st) []
      in case sv_pub_connect sv of
           Some e \<Rightarrow> ([con], Some (Wrapped ''connect: '' e))
         | None \<Rightarrow> (case sv_pub_rows sv of
               Inl e \<Rightarrow> ([con, look], Some e)
             | Inr rows \<Rightarrow>
                 if length rows = 0 then
                   (case sv_create_pub sv of
                      Some e \<Rightarrow> ([con, look, create], Some (Wrapped ''CREATE PUBLICATION: '' e))
                    | None \<Rightarrow> ([con, look, create], None))
                 else ([con, look], None)))"

text \<open>\<open>rr.Rows[0][0]\<close> of a row without columns is a panic, \<open>None\<close> in place of the result.\<close>

definition get_slot_lsn :: "'v lib \<Rightarrow> server \<Rightarrow> stream \<Rightarrow> command list \<times> (gerr + lsn) option" where
  "get_slot_lsn L sv st =
     (let con = Connect (st_normal_conn st);
          look = Exec slot_query [st_slot st]
      in case sv_slot_connect sv of
           Some e \<Rightarrow> ([con], Some (Inl e))
         | None \<Rightarrow> (case sv_slot_rows sv of
               Inl e \<Rightarrow> ([con, look], Some (Inl e))
             | Inr [] \<Rightarrow> ([con, look],
                 Some (Inl (ErrMsg (''slot '' @ quote (lib_printable L) (st_slot st) @ '' not found''))))
             | Inr ([] # rows) \<Rightarrow> ([con, look], None)
             | Inr ((col # cols) # rows) \<Rightarrow> ([con, look], Some (lib_parse_lsn L col))))"

text \<open>A slot that was created starts at its consistent point; that this is not a position is
  ignored, and \<open>ParseLSN\<close> gives 0 with its error.\<close>

definition ensure_slot :: "'v lib \<Rightarrow> server \<Rightarrow> stream \<Rightarrow> command list \<times> (gerr + lsn) option" where
  "ensure_slot L sv st =
     (let create = CreateSlot (st_slot st) ''pgoutput''
      in case sv_create_slot sv of
           Inl e \<Rightarrow> (case get_slot_lsn L sv st of
               (cmds, None) \<Rightarrow> (create # cmds, None)
             | (cmds, Some (Inl e')) \<Rightarrow> (create # cmds,
                 Some (Inl (Wrapped (''create failed ('' @ err_text e @ ''), lookup failed: '') e')))
             | (cmds, Some (Inr l)) \<Rightarrow> (create # cmds, Some (Inr l)))
         | Inr point \<Rightarrow> ([create], Some (case lib_parse_lsn L point of Inl e \<Rightarrow> Inr 0 | Inr l \<Rightarrow> Inr l)))"

definition plugin_args :: "stream \<Rightarrow> string list" where
  "plugin_args st =
     [''proto_version '' @ [CHR 0x27] @ ''1'' @ [CHR 0x27],
      ''publication_names '' @ [CHR 0x27] @ st_publication st @ [CHR 0x27]]"

definition choose_start :: "'v lib \<Rightarrow> stream \<Rightarrow> lsn \<Rightarrow> gerr + lsn" where
  "choose_start L st slot_lsn =
     (if st_start_override st \<noteq> [] then
        (case lib_parse_lsn L (st_start_override st) of
           Inl e \<Rightarrow> Inl (Wrapped (''parse snapshot LSN '' @ quote (lib_printable L) (st_start_override st) @ '': '') e)
         | Inr l \<Rightarrow> Inr l)
      else Inr slot_lsn)"

text \<open>What \<open>Run\<close> does before the loop, with the outcome so far: \<open>Continue\<close> when streaming has
  started.\<close>

definition run_setup ::
    "'v lib \<Rightarrow> (string set \<Rightarrow> string list) \<Rightarrow> server \<Rightarrow> stream \<Rightarrow> command list \<times> outcome" where
  "run_setup L order sv st =
     (let c1 = [Connect (st_repl_conn st)];
          c2 = c1 @ [IdentifySystem]
      in case sv_connect sv of
           Some e \<Rightarrow> (c1, Return (Some (Wrapped ''replication connect: '' e)))
         | None \<Rightarrow> (case sv_identify sv of
               Some e \<Rightarrow> (c2, Return (Some (Wrapped ''IdentifySystem: '' e)))
             | None \<Rightarrow> (case ensure_publication order sv st of
                   (c3, Some e) \<Rightarrow> (c2 @ c3, Return (Some (Wrapped ''ensure publication: '' e)))
                 | (c3, None) \<Rightarrow> (case ensure_slot L sv st of
                       (c4, None) \<Rightarrow> (c2 @ c3 @ c4, Panic)
                     | (c4, Some (Inl e)) \<Rightarrow> (c2 @ c3 @ c4, Return (Some (Wrapped ''ensure slot: '' e)))
                     | (c4, Some (Inr slot_lsn)) \<Rightarrow> (case choose_start L st slot_lsn of
                           Inl e \<Rightarrow> (c2 @ c3 @ c4, Return (Some e))
                         | Inr l \<Rightarrow>
                             (let c5 = c2 @ c3 @ c4 @ [StartReplication (st_slot st) l (plugin_args st)]
                              in case sv_start sv of
                                   Some e \<Rightarrow> (c5, Return (Some (Wrapped ''StartReplication: '' e)))
                                 | None \<Rightarrow> (c5, Continue)))))))"

definition run ::
    "'v lib \<Rightarrow> (string set \<Rightarrow> string list) \<Rightarrow> server \<Rightarrow> ('h, 'v) handler \<Rightarrow> time \<Rightarrow> tick list \<Rightarrow> stream \<Rightarrow> 'h
      \<Rightarrow> command list \<times> (stream \<times> 'h \<times> loop_state) \<times> outcome" where
  "run L order sv handle now tks st h =
     (case run_setup L order sv st of
        (cmds, Continue) \<Rightarrow> (cmds, message_loop L handle now tks st h)
      | (cmds, r) \<Rightarrow> (cmds, (st, h, start_loop now), r))"

section \<open>Facts\<close>

definition starts_replication :: "command \<Rightarrow> bool" where
  "starts_replication c = (case c of StartReplication slot l args \<Rightarrow> True | _ \<Rightarrow> False)"

lemma ensure_publication_no_start:
  "ensure_publication order sv st = (cmds, r) \<Longrightarrow> \<forall>c \<in> set cmds. \<not> starts_replication c"
  by (auto simp: ensure_publication_def starts_replication_def Let_def
      split: option.splits sum.splits if_splits)

lemma get_slot_lsn_no_start:
  "get_slot_lsn L sv st = (cmds, r) \<Longrightarrow> \<forall>c \<in> set cmds. \<not> starts_replication c"
  by (auto simp: get_slot_lsn_def starts_replication_def Let_def
      split: option.splits sum.splits list.splits)

lemma ensure_slot_no_start:
  "ensure_slot L sv st = (cmds, r) \<Longrightarrow> \<forall>c \<in> set cmds. \<not> starts_replication c"
  using get_slot_lsn_no_start [of L sv st]
  by (auto simp: ensure_slot_def Let_def starts_replication_def split: option.splits sum.splits prod.splits)

text \<open>The position a slot is at: of the lookup when it exists, else its consistent point.\<close>

definition slot_position :: "'v lib \<Rightarrow> server \<Rightarrow> lsn option" where
  "slot_position L sv =
     (case sv_create_slot sv of
        Inr point \<Rightarrow> (case lib_parse_lsn L point of Inl e \<Rightarrow> Some 0 | Inr l \<Rightarrow> Some l)
      | Inl e \<Rightarrow> (case sv_slot_rows sv of
            Inr ((col # cols) # rows) \<Rightarrow> (case lib_parse_lsn L col of Inl e \<Rightarrow> None | Inr l \<Rightarrow> Some l)
          | _ \<Rightarrow> None))"

lemma ensure_slot_position:
  "ensure_slot L sv st = (cmds, Some (Inr l)) \<Longrightarrow> slot_position L sv = Some l"
  by (auto simp: ensure_slot_def get_slot_lsn_def slot_position_def Let_def
      split: option.splits sum.splits list.splits prod.splits)

lemma setup_start:
  assumes "run_setup L order sv st = (cmds, Continue)"
  shows "\<exists>pre l. cmds = pre @ [StartReplication (st_slot st) l (plugin_args st)]
    \<and> (\<forall>c \<in> set pre. \<not> starts_replication c)
    \<and> (if st_start_override st \<noteq> [] then lib_parse_lsn L (st_start_override st) = Inr l
       else slot_position L sv = Some l)"
proof -
  obtain c3 c4 l0 l where pub: "ensure_publication order sv st = (c3, None)"
    and slot: "ensure_slot L sv st = (c4, Some (Inr l0))" and start: "choose_start L st l0 = Inr l"
    and cmds: "cmds = [Connect (st_repl_conn st), IdentifySystem] @ c3 @ c4
        @ [StartReplication (st_slot st) l (plugin_args st)]"
    using assms by (auto simp: run_setup_def Let_def split: option.splits prod.splits sum.splits)
  have "\<forall>c \<in> set ([Connect (st_repl_conn st), IdentifySystem] @ c3 @ c4). \<not> starts_replication c"
    using ensure_publication_no_start [OF pub] ensure_slot_no_start [OF slot]
    by (auto simp: starts_replication_def)
  with cmds start ensure_slot_position [OF slot] show ?thesis
    by (intro exI [of _ "[Connect (st_repl_conn st), IdentifySystem] @ c3 @ c4"] exI [of _ l])
      (auto simp: choose_start_def split: if_splits sum.splits)
qed

section \<open>Properties\<close>

text \<open>
  C34. When the set-up succeeds, replication has been started exactly once, as the last command,
  on the stream's slot and publication, and at the position of the snapshot if one was set, else
  at the slot's own; a snapshot position that cannot be read never starts it.
\<close>

theorem run_start_position:
  assumes "run_setup L order sv st = (cmds, Continue)"
  shows "\<exists>pre l. cmds = pre @ [StartReplication (st_slot st) l (plugin_args st)]
    \<and> (\<forall>c \<in> set pre. \<not> starts_replication c)
    \<and> (if st_start_override st \<noteq> [] then lib_parse_lsn L (st_start_override st) = Inr l
       else slot_position L sv = Some l)"
  using assms by (rule setup_start)

text \<open>
  C35. A publication that is not there yet is created for all tables when the filter names none,
  and otherwise for exactly the named tables, each listed once, in lower case; one that exists is
  left alone whatever the filter says.
\<close>

theorem ensure_publication_tables:
  assumes "\<forall>K. finite K \<longrightarrow> set (order K) = K \<and> distinct (order K)"
    and "st_filter st = new_filter up lo tables actions"
    and "sv_pub_connect sv = None" and "sv_create_pub sv = None"
  shows "(sv_pub_rows sv = Inr [] \<longrightarrow> (\<exists>sql. ensure_publication order sv st =
        ([Connect (st_normal_conn st), Exec publication_query [st_publication st], Exec sql []], None)
      \<and> (if items tables = [] then sql = ''CREATE PUBLICATION '' @ st_publication st @ '' FOR ALL TABLES''
         else \<exists>ts. sql = ''CREATE PUBLICATION '' @ st_publication st @ '' FOR TABLE '' @ join '', '' ts
            \<and> distinct ts \<and> set ts = to_lower lo ` set (items tables))))
    \<and> (\<forall>row rows. sv_pub_rows sv = Inr (row # rows) \<longrightarrow> ensure_publication order sv st =
        ([Connect (st_normal_conn st), Exec publication_query [st_publication st]], None))"
proof -
  let ?K = "to_lower lo ` set (items tables)"
  have K: "set (order ?K) = ?K" "distinct (order ?K)"
    using assms(1) by simp_all
  have ne: "items tables \<noteq> [] \<Longrightarrow> order ?K \<noteq> []"
    using K(1) by (metis image_is_empty set_empty)
  have "publication_sql order st = ''CREATE PUBLICATION '' @ st_publication st @
      (if items tables = [] then '' FOR ALL TABLES'' else '' FOR TABLE '' @ join '', '' (order ?K))"
    using ne by (simp add: publication_sql_def table_list_def assms(2) keys_new_filter)
  with K assms(3,4) show ?thesis
    by (auto simp: ensure_publication_def Let_def)
qed

section \<open>Concrete instances of the properties\<close>

definition sample_server :: server where
  "sample_server =
     \<lparr>sv_connect = None, sv_identify = None, sv_pub_connect = None, sv_pub_rows = Inr [],
      sv_create_pub = None, sv_create_slot = Inl (ErrMsg ''exists''), sv_slot_connect = None,
      sv_slot_rows = Inr [[''0/10'']], sv_start = None\<rparr>"

theorem run_start_position_witness:
  "\<exists>pre. fst (run_setup (sample_lib\<lparr>lib_parse_lsn := (\<lambda>s. Inr (of_nat (length s)))\<rparr>) sorted_list_of_set
      sample_server (set_start_lsn ''0/1'' sample_stream))
    = pre @ [StartReplication ''slot'' 3 (plugin_args sample_stream)]"
proof -
  let ?L = "sample_lib\<lparr>lib_parse_lsn := (\<lambda>s. Inr (of_nat (length s)))\<rparr>"
  let ?st = "set_start_lsn ''0/1'' sample_stream"
  have st: "st_start_override ?st = ''0/1''" "st_slot ?st = ''slot''" "plugin_args ?st = plugin_args sample_stream"
    by (simp_all add: set_start_lsn_def sample_stream_def new_stream_def plugin_args_def)
  have "snd (run_setup ?L sorted_list_of_set sample_server ?st) = Continue"
    by (simp add: run_setup_def sample_server_def ensure_publication_def ensure_slot_def get_slot_lsn_def
        choose_start_def Let_def st)
  then have "run_setup ?L sorted_list_of_set sample_server ?st
      = (fst (run_setup ?L sorted_list_of_set sample_server ?st), Continue)"
    by (simp add: prod_eq_iff)
  from run_start_position [OF this] show ?thesis
    by (auto simp: st)
qed

theorem ensure_publication_tables_witness:
  "\<exists>cons look sql. ensure_publication sorted_list_of_set sample_server
        (new_stream ''postgres://h/db'' ''slot'' ''pub'' (new_filter id id ''users'' []))
      = ([cons, look, Exec sql []], None)
     \<and> (\<exists>ts. sql = ''CREATE PUBLICATION '' @ ''pub'' @ '' FOR TABLE '' @ join '', '' ts
          \<and> set ts = {to_lower id ''users''})"
proof -
  let ?st = "new_stream ''postgres://h/db'' ''slot'' ''pub'' (new_filter id id ''users'' [])"
  have order: "\<forall>K :: string set. finite K \<longrightarrow> set (sorted_list_of_set K) = K \<and> distinct (sorted_list_of_set K)"
    by simp
  have ts: "items ''users'' = [''users'']"
    using items_join [of "[''users'']"] by (simp add: trimmed_def solid_def ascii_space_def)
  have flt: "st_filter ?st = new_filter id id ''users'' []" and pub: "st_publication ?st = ''pub''"
    by (simp_all add: new_stream_def)
  have sv: "sv_pub_connect sample_server = None" "sv_create_pub sample_server = None"
      "sv_pub_rows sample_server = Inr []"
    by (simp_all add: sample_server_def)
  from ensure_publication_tables [where order = sorted_list_of_set, OF order flt sv(1,2), THEN conjunct1, rule_format, OF sv(3)]
  obtain sql where created: "ensure_publication sorted_list_of_set sample_server ?st =
        ([Connect (st_normal_conn ?st), Exec publication_query [st_publication ?st], Exec sql []], None)"
      and sql: "if items ''users'' = [] then sql = ''CREATE PUBLICATION '' @ st_publication ?st @ '' FOR ALL TABLES''
         else \<exists>ts. sql = ''CREATE PUBLICATION '' @ st_publication ?st @ '' FOR TABLE '' @ join '', '' ts
            \<and> distinct ts \<and> set ts = to_lower id ` set (items ''users'')"
    by blast
  from sql obtain us where us: "sql = ''CREATE PUBLICATION '' @ ''pub'' @ '' FOR TABLE '' @ join '', '' us"
      "set us = to_lower id ` set [''users'']"
    unfolding ts pub by (simp only: list.distinct if_False) blast
  from us(2) have "set us = {to_lower id ''users''}"
    by (simp only: list.set image_insert image_empty)
  with created us(1) show ?thesis
    by blast
qed

end
