(* ===== verification/Snapshot.thy ===== *)
theory Snapshot
  imports Stream_Setup Metrics
begin

text \<open>
  \<open>internal/cdc/snapshot.go\<close>: reading the rows that exist before streaming starts, and handing
  each to the handler as an \<open>INSERT\<close>. What pgx and the server answer is the record
  \<open>snap_server\<close>: per table the result of the two queries, row by row. A function gives the
  commands it sends, the handler's state, the metrics recorded, and its result.
\<close>

section \<open>Identifiers\<close>

abbreviation DQ :: char where
  "DQ \<equiv> CHR 0x22"

definition quote_ident :: "string \<Rightarrow> string" where
  "quote_ident name = [DQ] @ replace_all name DQ [DQ, DQ] @ [DQ]"

section \<open>One table\<close>

text \<open>The answers for one table: the columns query (an error, or what each \<open>Scan\<close> gives and
  \<open>Err()\<close> at the end), the clock, and the rows query likewise.\<close>

record 'v table_answers =
  ta_columns :: "gerr + (gerr + string) list \<times> gerr option"
  ta_rows :: "gerr + (gerr + 'v val list) list \<times> gerr option"
  ta_now :: time

record snapshot =
  sn_conn_str :: string
  sn_tables :: "string list"

definition new_snapshot :: "string \<Rightarrow> string list \<Rightarrow> snapshot" where
  "new_snapshot conn_str tables = \<lparr>sn_conn_str = conn_str, sn_tables = tables\<rparr>"

text \<open>The columns query, a raw string of several indented lines.\<close>

definition columns_query :: string where
  "columns_query =
     concat (map (\<lambda>l. [CHR 0x0A, CHR 0x09, CHR 0x09] @ l)
       [''SELECT a.attname'', ''FROM pg_attribute a'', ''JOIN pg_class c ON a.attrelid = c.oid'',
        ''JOIN pg_namespace n ON c.relnamespace = n.oid'', ''WHERE c.relname = $1'', ''  AND a.attnum > 0'',
        ''  AND NOT a.attisdropped'', ''ORDER BY a.attnum'']) @ [CHR 0x0A, CHR 0x09]"

definition rows_query :: "string \<Rightarrow> string" where
  "rows_query table = ''SELECT * FROM '' @ quote_ident table"

fun scan_columns :: "(gerr + string) list \<Rightarrow> string list \<Rightarrow> gerr + string list" where
  "scan_columns [] columns = Inr columns"
| "scan_columns (Inl e # rest) columns = Inl (Wrapped ''scan column name: '' e)"
| "scan_columns (Inr col # rest) columns = scan_columns rest (columns @ [col])"

fun row_map :: "string list \<Rightarrow> 'v val list \<Rightarrow> 'v row \<Rightarrow> 'v row" where
  "row_map [] vals m = m"
| "row_map (col # cols) [] m = m"
| "row_map (col # cols) (v # vals) m = row_map cols vals (m(col \<mapsto> v))"

definition snapshot_event :: "string \<Rightarrow> time \<Rightarrow> 'v row \<Rightarrow> 'v change_event" where
  "snapshot_event table t row =
     \<lparr>ev_action = ''INSERT'', ev_schema = ''public'', ev_table = table, ev_new = Some row, ev_old = None,
      ev_timestamp = t, ev_lsn = ''snapshot'', ev_xid = 0\<rparr>"

text \<open>The loop over the rows: the handler's state, the count and the metrics, and an error that
  ends it.\<close>

fun row_loop ::
    "('h, 'v) handler \<Rightarrow> string \<Rightarrow> time \<Rightarrow> string list \<Rightarrow> (gerr + 'v val list) list
      \<Rightarrow> 'h \<times> int \<times> metric list \<Rightarrow> ('h \<times> int \<times> metric list) \<times> gerr option" where
  "row_loop handle table t columns [] st = (st, None)"
| "row_loop handle table t columns (Inl e # rest) st = (st, Some (Wrapped ''scan row: '' e))"
| "row_loop handle table t columns (Inr vals # rest) (h, count, ms) =
     (case handle h (snapshot_event table t (row_map columns vals Map.empty)) of
        (h', Some e) \<Rightarrow> ((h', count, ms), Some (Wrapped ''handler: '' e))
      | (h', None) \<Rightarrow>
          row_loop handle table t columns rest (h', count + 1, ms @ [SnapshotRowsTotal table]))"

definition snapshot_table ::
    "(nat \<Rightarrow> bool) \<Rightarrow> ('h, 'v) handler \<Rightarrow> string \<Rightarrow> 'v table_answers \<Rightarrow> 'h
      \<Rightarrow> command list \<times> 'h \<times> metric list \<times> (int \<times> gerr option)" where
  "snapshot_table pr handle table ans h =
     (let look = Exec columns_query [table];
          read = Exec (rows_query table) []
      in case ta_columns ans of
           Inl e \<Rightarrow> ([look], h, [], 0, Some (Wrapped ''query columns: '' e))
         | Inr (scans, cols_err) \<Rightarrow> (case scan_columns scans [] of
               Inl e \<Rightarrow> ([look], h, [], 0, Some e)
             | Inr columns \<Rightarrow> (case cols_err of
                   Some e \<Rightarrow> ([look], h, [], 0, Some (Wrapped ''iterate columns: '' e))
                 | None \<Rightarrow>
                     if length columns = 0 then
                       ([look], h, [], 0,
                        Some (ErrMsg (''table '' @ quote pr table @ '' not found or has no columns'')))
                     else (case ta_rows ans of
                         Inl e \<Rightarrow> ([look, read], h, [], 0, Some (Wrapped ''query rows: '' e))
                       | Inr (rows, rows_err) \<Rightarrow>
                           (case row_loop handle table (ta_now ans) columns rows (h, 0, []) of
                              ((h', count, ms), Some e) \<Rightarrow> ([look, read], h', ms, count, Some e)
                            | ((h', count, ms), None) \<Rightarrow> ([look, read], h', ms, count, rows_err))))))"

section \<open>All tables\<close>

text \<open>The answers of the server, and the table of printable runes for \<open>%q\<close>.\<close>

record 'v snap_server =
  ss_connect :: "gerr option"
  ss_begin :: "gerr option"
  ss_lsn :: "gerr + string"
  ss_answers :: "nat \<Rightarrow> 'v table_answers"
  ss_commit :: "gerr option"
  ss_printable :: "nat \<Rightarrow> bool"

definition begin_command :: command where
  "begin_command = Exec ''begin isolation level repeatable read'' []"

definition lsn_query :: string where
  "lsn_query = ''SELECT pg_current_wal_lsn()::text''"

text \<open>The loop over the tables, the \<open>i\<close>-th onwards; the deferred rollback follows.\<close>

fun table_loop ::
    "('h, 'v) handler \<Rightarrow> 'v snap_server \<Rightarrow> nat \<Rightarrow> string list \<Rightarrow> 'h \<Rightarrow> command list \<times> 'h \<times> metric list \<times> gerr option" where
  "table_loop handle sv i [] h = ([], h, [], None)"
| "table_loop handle sv i (table # tables) h =
     (case snapshot_table (ss_printable sv) handle table (ss_answers sv i) h of
        (cmds, h', ms, count, Some e) \<Rightarrow> (cmds, h', ms, Some (Wrapped (''snapshot table '' @ table @ '': '') e))
      | (cmds, h', ms, count, None) \<Rightarrow>
          (case table_loop handle sv (Suc i) tables h' of
             (cmds', h'', ms', r) \<Rightarrow> (cmds @ cmds', h'', ms @ ms', r)))"

definition snapshot_run ::
    "('h, 'v) handler \<Rightarrow> 'v snap_server \<Rightarrow> snapshot \<Rightarrow> 'h \<Rightarrow> command list \<times> 'h \<times> metric list \<times> (gerr + string)" where
  "snapshot_run handle sv sn h =
     (if length (sn_tables sn) = 0 then ([], h, [], Inr [])
      else (let con = Connect (sn_conn_str sn); look = Exec lsn_query []
        in case ss_connect sv of
             Some e \<Rightarrow> ([con], h, [], Inl (Wrapped ''snapshot connect: '' e))
           | None \<Rightarrow> (case ss_begin sv of
                 Some e \<Rightarrow> ([con, begin_command], h, [], Inl (Wrapped ''begin snapshot tx: '' e))
               | None \<Rightarrow> (case ss_lsn sv of
                     Inl e \<Rightarrow> ([con, begin_command, look], h, [], Inl (Wrapped ''get snapshot LSN: '' e))
                   | Inr l \<Rightarrow>
                       (case table_loop handle sv 0 (sn_tables sn) h of
                          (cmds, h', ms, Some e) \<Rightarrow> ([con, begin_command, look] @ cmds, h', ms, Inl e)
                        | (cmds, h', ms, None) \<Rightarrow>
                            (case ss_commit sv of
                               Some e \<Rightarrow> ([con, begin_command, look] @ cmds @ [Exec ''commit'' []], h', ms,
                                 Inl (Wrapped ''commit snapshot tx: '' e))
                             | None \<Rightarrow> ([con, begin_command, look] @ cmds @ [Exec ''commit'' []], h', ms, Inr l)))))))"

section \<open>Facts\<close>

text \<open>How SQL reads a quoted identifier: to the first quote that is not doubled.\<close>

fun read_ident_body :: "string \<Rightarrow> (string \<times> string) option" where
  "read_ident_body [] = None"
| "read_ident_body (c # cs) =
     (if c = DQ then
        (case cs of
           d # ds \<Rightarrow> if d = DQ then map_option (map_prod (Cons DQ) id) (read_ident_body ds) else Some ([], cs)
         | [] \<Rightarrow> Some ([], []))
      else map_option (map_prod (Cons c) id) (read_ident_body cs))"

definition read_ident :: "string \<Rightarrow> (string \<times> string) option" where
  "read_ident s = (case s of c # cs \<Rightarrow> if c = DQ then read_ident_body cs else None | [] \<Rightarrow> None)"

lemma read_ident_body_quoted:
  assumes "rest = [] \<or> hd rest \<noteq> DQ"
  shows "read_ident_body (replace_all name DQ [DQ, DQ] @ DQ # rest) = Some (name, rest)"
proof (induction name)
  case Nil
  with assms show ?case by (cases rest) (auto simp: replace_all_def)
next
  case (Cons c name)
  then show ?case by (cases "c = DQ") (simp_all add: replace_all_def)
qed

text \<open>Handing events over up to the first error, which is given as it is.\<close>

fun handle_all :: "('h, 'v) handler \<Rightarrow> 'v change_event list \<Rightarrow> 'h \<Rightarrow> 'h \<times> gerr option" where
  "handle_all handle [] h = (h, None)"
| "handle_all handle (ev # evs) h =
     (case handle h ev of (h', None) \<Rightarrow> handle_all handle evs h' | (h', Some e) \<Rightarrow> (h', Some e))"

lemma handle_all_append:
  "handle_all handle (evs @ evs') h =
     (case handle_all handle evs h of (h', None) \<Rightarrow> handle_all handle evs' h' | (h', Some e) \<Rightarrow> (h', Some e))"
  by (induction evs arbitrary: h) (auto split: prod.split option.split)

lemma scan_columns_ok: "scan_columns (map Inr cols) acc = Inr (acc @ cols)"
  by (induction cols arbitrary: acc) auto

definition table_events :: "string \<Rightarrow> time \<Rightarrow> string list \<Rightarrow> 'v val list list \<Rightarrow> 'v change_event list" where
  "table_events table t cols rows = map (\<lambda>vals. snapshot_event table t (row_map cols vals Map.empty)) rows"

lemma row_loop_ok:
  "\<exists>n ms'. row_loop handle table t cols (map Inr rows) (h, count, ms) =
    (case handle_all handle (table_events table t cols rows) h of
       (h', None) \<Rightarrow> ((h', count + int (length rows), ms @ replicate (length rows) (SnapshotRowsTotal table)), None)
     | (h', Some e) \<Rightarrow> ((h', n, ms'), Some (Wrapped ''handler: '' e)))"
proof (induction rows arbitrary: h count ms)
  case Nil
  then show ?case by (simp add: table_events_def)
next
  case (Cons vals rows)
  obtain h1 r where one: "handle h (snapshot_event table t (row_map cols vals Map.empty)) = (h1, r)"
    by fastforce
  show ?case
  proof (cases r)
    case None
    with Cons.IH [of h1 "count + 1" "ms @ [SnapshotRowsTotal table]"] one show ?thesis
      by (auto simp: table_events_def replicate_app_Cons_same split: prod.splits option.splits)
  next
    case (Some e)
    with one show ?thesis by (auto simp: table_events_def)
  qed
qed

text \<open>A server on which every table answers without an error, with these columns and rows.\<close>

definition answers_ok ::
    "'v snap_server \<Rightarrow> nat \<Rightarrow> string list \<Rightarrow> (nat \<Rightarrow> string list) \<Rightarrow> (nat \<Rightarrow> 'v val list list) \<Rightarrow> bool" where
  "answers_ok sv i tables cols rows \<longleftrightarrow> (\<forall>j < length tables.
     ta_columns (ss_answers sv (i + j)) = Inr (map Inr (cols (i + j)), None) \<and> cols (i + j) \<noteq> []
     \<and> ta_rows (ss_answers sv (i + j)) = Inr (map Inr (rows (i + j)), None))"

text \<open>The events a snapshot of it stands for: every row of every table, in order.\<close>

fun planned_events ::
    "'v snap_server \<Rightarrow> (nat \<Rightarrow> string list) \<Rightarrow> (nat \<Rightarrow> 'v val list list) \<Rightarrow> nat \<Rightarrow> string list \<Rightarrow> 'v change_event list" where
  "planned_events sv cols rows i [] = []"
| "planned_events sv cols rows i (t # ts) =
     table_events t (ta_now (ss_answers sv i)) (cols i) (rows i) @ planned_events sv cols rows (Suc i) ts"

lemma answers_ok_Cons:
  "answers_ok sv i (t # ts) cols rows \<longleftrightarrow>
     ta_columns (ss_answers sv i) = Inr (map Inr (cols i), None) \<and> cols i \<noteq> []
     \<and> ta_rows (ss_answers sv i) = Inr (map Inr (rows i), None) \<and> answers_ok sv (Suc i) ts cols rows"
  by (auto simp: answers_ok_def All_less_Suc2)

lemma snapshot_table_ok:
  assumes "ta_columns ans = Inr (map Inr cols, None)" and "cols \<noteq> []" and "ta_rows ans = Inr (map Inr rows, None)"
  shows "\<exists>cmds n ms. snapshot_table pr handle t ans h =
    (case handle_all handle (table_events t (ta_now ans) cols rows) h of
       (h', None) \<Rightarrow> (cmds, h', replicate (length rows) (SnapshotRowsTotal t), int (length rows), None)
     | (h', Some e) \<Rightarrow> (cmds, h', ms, n, Some (Wrapped ''handler: '' e)))"
proof -
  obtain n ms where loop: "row_loop handle t (ta_now ans) cols (map Inr rows) (h, 0, []) =
    (case handle_all handle (table_events t (ta_now ans) cols rows) h of
       (h', None) \<Rightarrow> ((h', int (length rows), replicate (length rows) (SnapshotRowsTotal t)), None)
     | (h', Some e) \<Rightarrow> ((h', n, ms), Some (Wrapped ''handler: '' e)))"
    using row_loop_ok [of handle t "ta_now ans" cols rows h 0 "[]"] unfolding add_0 append_Nil by blast
  show ?thesis
    using assms loop
    by (intro exI [of _ "[Exec columns_query [t], Exec (rows_query t) []]"] exI [of _ n] exI [of _ ms])
      (auto simp: snapshot_table_def scan_columns_ok Let_def split: prod.split option.split)
qed

lemma table_loop_ok:
  assumes "answers_ok sv i tables cols rows"
  shows "\<exists>cmds t ms. table_loop handle sv i tables h =
    (case handle_all handle (planned_events sv cols rows i tables) h of
       (h', None) \<Rightarrow> (cmds, h', ms, None)
     | (h', Some e) \<Rightarrow> (cmds, h', ms, Some (Wrapped (''snapshot table '' @ t @ '': '') (Wrapped ''handler: '' e))))"
  using assms
proof (induction tables arbitrary: i h)
  case Nil
  then show ?case by simp
next
  case (Cons t ts)
  from Cons.prems obtain cmds n ms where one: "snapshot_table (ss_printable sv) handle t (ss_answers sv i) h =
    (case handle_all handle (table_events t (ta_now (ss_answers sv i)) (cols i) (rows i)) h of
       (h', None) \<Rightarrow> (cmds, h', replicate (length (rows i)) (SnapshotRowsTotal t), int (length (rows i)), None)
     | (h', Some e) \<Rightarrow> (cmds, h', ms, n, Some (Wrapped ''handler: '' e)))"
    using snapshot_table_ok [of "ss_answers sv i" "cols i" "rows i"] by (fastforce simp: answers_ok_Cons)
  obtain h1 r where h1: "handle_all handle (table_events t (ta_now (ss_answers sv i)) (cols i) (rows i)) h = (h1, r)"
    by fastforce
  show ?case
  proof (cases r)
    case None
    from Cons.prems have ok: "answers_ok sv (Suc i) ts cols rows"
      by (simp add: answers_ok_Cons)
    obtain cmds' t' ms' where rest: "table_loop handle sv (Suc i) ts h1 =
      (case handle_all handle (planned_events sv cols rows (Suc i) ts) h1 of
         (h', None) \<Rightarrow> (cmds', h', ms', None)
       | (h', Some e) \<Rightarrow> (cmds', h', ms', Some (Wrapped (''snapshot table '' @ t' @ '': '') (Wrapped ''handler: '' e))))"
      using Cons.IH [OF ok, of h1] by blast
    show ?thesis
      using one h1 None rest
      by (intro exI [of _ "cmds @ cmds'"] exI [of _ t']
            exI [of _ "replicate (length (rows i)) (SnapshotRowsTotal t) @ ms'"])
        (simp add: handle_all_append split: prod.split option.split)
  next
    case (Some e)
    with one h1 show ?thesis
      by (intro exI [of _ cmds] exI [of _ t] exI [of _ ms]) (simp add: handle_all_append)
  qed
qed

lemma snapshot_run_ok:
  assumes "answers_ok sv 0 (sn_tables sn) cols rows" and "sn_tables sn \<noteq> []"
    and "ss_connect sv = None" "ss_begin sv = None" "ss_lsn sv = Inr l" "ss_commit sv = None"
  shows "\<exists>cmds t ms. snapshot_run handle sv sn h =
    (case handle_all handle (planned_events sv cols rows 0 (sn_tables sn)) h of
       (h', None) \<Rightarrow> (cmds, h', ms, Inr l)
     | (h', Some e) \<Rightarrow>
        (cmds, h', ms, Inl (Wrapped (''snapshot table '' @ t @ '': '') (Wrapped ''handler: '' e))))"
proof -
  obtain cmds t ms where loop: "table_loop handle sv 0 (sn_tables sn) h =
    (case handle_all handle (planned_events sv cols rows 0 (sn_tables sn)) h of
       (h', None) \<Rightarrow> (cmds, h', ms, None)
     | (h', Some e) \<Rightarrow> (cmds, h', ms, Some (Wrapped (''snapshot table '' @ t @ '': '') (Wrapped ''handler: '' e))))"
    using table_loop_ok [OF assms(1), of handle h] by blast
  obtain h1 r where h1: "handle_all handle (planned_events sv cols rows 0 (sn_tables sn)) h = (h1, r)"
    by fastforce
  show ?thesis
    by (cases r) (use assms loop h1 in \<open>auto simp: snapshot_run_def Let_def\<close>)
qed

section \<open>Properties\<close>

text \<open>
  C26. When the server answers without an error, a snapshot hands to the handler one \<open>INSERT\<close> for
  every row of every table, in order, up to the first the handler refuses; it gives the position
  it was taken at when all are handled, and that error with the table's name otherwise.
\<close>

theorem snapshot_run_delivers:
  assumes "answers_ok sv 0 (sn_tables sn) cols rows" and "sn_tables sn \<noteq> []"
    and "ss_connect sv = None" "ss_begin sv = None" "ss_lsn sv = Inr l" "ss_commit sv = None"
  shows "\<exists>cmds t ms. snapshot_run handle sv sn h =
    (case handle_all handle (planned_events sv cols rows 0 (sn_tables sn)) h of
       (h', None) \<Rightarrow> (cmds, h', ms, Inr l)
     | (h', Some e) \<Rightarrow>
        (cmds, h', ms, Inl (Wrapped (''snapshot table '' @ t @ '': '') (Wrapped ''handler: '' e))))"
  using assms by (rule snapshot_run_ok)

text \<open>
  A quoted name is read back by SQL as one identifier, this name, whatever quotes are in it,
  and nothing of the name is left to be read as SQL.
\<close>

theorem quote_ident_roundtrip:
  assumes "rest = [] \<or> hd rest \<noteq> DQ"
  shows "read_ident (quote_ident name @ rest) = Some (name, rest)"
  using read_ident_body_quoted [OF assms] by (simp add: read_ident_def quote_ident_def)

section \<open>Concrete instances of the properties\<close>

theorem quote_ident_roundtrip_witness:
  "read_ident (quote_ident (''x'' @ [DQ] @ ''; DROP TABLE y'') @ '' LIMIT 1'') = Some (''x'' @ [DQ] @ ''; DROP TABLE y'', '' LIMIT 1'')"
  by (rule quote_ident_roundtrip) simp

definition sample_snap :: "nat snap_server" where
  "sample_snap =
     \<lparr>ss_connect = None, ss_begin = None, ss_lsn = Inr ''0/10'',
      ss_answers = (\<lambda>i. \<lparr>ta_columns = Inr (map Inr [''id''], None),
        ta_rows = Inr (map Inr [[VCodec 1], [VCodec 2]], None), ta_now = 5\<rparr>),
      ss_commit = None, ss_printable = (\<lambda>r. True)\<rparr>"

theorem snapshot_run_delivers_witness:
  "\<exists>cmds ms. snapshot_run (\<lambda>h ev. (h @ [ev], None)) sample_snap \<lparr>sn_conn_str = ''c'', sn_tables = [''users'']\<rparr> []
     = (cmds, [snapshot_event ''users'' 5 [''id'' \<mapsto> VCodec 1], snapshot_event ''users'' 5 [''id'' \<mapsto> VCodec 2]], ms,
        Inr ''0/10'')"
proof -
  have ok: "answers_ok sample_snap 0 (sn_tables \<lparr>sn_conn_str = ''c'', sn_tables = [''users'']\<rparr>)
      (\<lambda>i. [''id'']) (\<lambda>i. [[VCodec 1], [VCodec 2]])"
    by (simp add: answers_ok_def sample_snap_def)
  from snapshot_run_delivers [OF ok, of "''0/10''" "\<lambda>h ev. (h @ [ev], None)" "[]"] show ?thesis
    by (simp add: sample_snap_def table_events_def)
qed

end
