(* ===== verification/Json.thy ===== *)
theory Json
  imports Event_Filter
begin

text \<open>
  The text of an event: the \<open>json\<close> tags of \<open>ChangeEvent\<close> (\<open>internal/cdc/event.go\<close>), of
  \<open>batchOutput\<close> (\<open>internal/sink/stdout_batch.go\<close>) and of \<open>DLQEntry\<close>
  (\<open>internal/sink/dlq.go\<close>), with the encoding \<open>encoding/json\<close> gives them: strings escaped
  for HTML, the keys of a map sorted, empty maps omitted where the tag says \<open>omitempty\<close>.

  How the values of a pgtype codec and a \<open>time.Time\<close> marshal is a parameter, \<open>json_codec\<close>: the
  former are types of a library that is not in the repository, the latter depends on a time zone
  the model's times do not have.
\<close>

record 'v json_codec =
  jc_value :: "'v \<Rightarrow> gerr + bytes"
  jc_time :: "time \<Rightarrow> gerr + bytes"

section \<open>Strings\<close>

definition json_safe :: "char \<Rightarrow> bool" where
  "json_safe c \<longleftrightarrow> 32 \<le> byte_val c \<and> byte_val c < 128
     \<and> c \<notin> {CHR 0x22, CHR 0x5C, CHR ''<'', CHR ''>'', CHR ''&''}"

definition json_escape :: "char \<Rightarrow> bytes" where
  "json_escape c =
     (if json_safe c then [c]
      else if c = CHR 0x5C \<or> c = CHR 0x22 then [CHR 0x5C, c]
      else if c = CHR 0x08 then [CHR 0x5C, CHR ''b'']
      else if c = CHR 0x0C then [CHR 0x5C, CHR ''f'']
      else if c = CHR 0x0A then [CHR 0x5C, CHR ''n'']
      else if c = CHR 0x0D then [CHR 0x5C, CHR ''r'']
      else if c = CHR 0x09 then [CHR 0x5C, CHR ''t'']
      else [CHR 0x5C, CHR ''u'', CHR ''0'', CHR ''0'', hex_digit (byte_val c div 16), hex_digit (byte_val c mod 16)])"

fun json_body :: "bytes \<Rightarrow> bytes" where
  "json_body [] = []"
| "json_body (c # cs) =
     (if byte_val c < 128 then json_escape c @ json_body cs
      else (case decode_rune (c # cs) of (r, n) \<Rightarrow>
        if r = rune_error \<and> n = 1 then CHR 0x5C # ''ufffd'' @ json_body cs
        else if r = 8232 \<or> r = 8233 then
          CHR 0x5C # ''u202'' @ [hex_digit (r mod 16)] @ json_body (drop (n - 1) cs)
        else take n (c # cs) @ json_body (drop (n - 1) cs)))"

definition json_string :: "bytes \<Rightarrow> bytes" where
  "json_string s = CHR 0x22 # json_body s @ [CHR 0x22]"

section \<open>Values, rows and events\<close>

text \<open>Sequencing of steps that may fail.\<close>

definition bind_ok :: "gerr + 'a \<Rightarrow> ('a \<Rightarrow> gerr + 'b) \<Rightarrow> gerr + 'b" where
  "bind_ok r f = (case r of Inl e \<Rightarrow> Inl e | Inr x \<Rightarrow> f x)"

fun map_ok :: "('a \<Rightarrow> gerr + 'b) \<Rightarrow> 'a list \<Rightarrow> gerr + 'b list" where
  "map_ok f [] = Inr []"
| "map_ok f (x # xs) = bind_ok (f x) (\<lambda>y. bind_ok (map_ok f xs) (\<lambda>ys. Inr (y # ys)))"

definition json_value :: "'v json_codec \<Rightarrow> 'v val \<Rightarrow> gerr + bytes" where
  "json_value J v =
     (case v of VNil \<Rightarrow> Inr ''null'' | VString s \<Rightarrow> Inr (json_string s) | VCodec x \<Rightarrow> jc_value J x)"

definition json_field :: "string \<Rightarrow> bytes \<Rightarrow> bytes" where
  "json_field name v = json_string name @ '':'' @ v"

definition json_object :: "bytes list \<Rightarrow> bytes" where
  "json_object ms = ''{'' @ join '','' ms @ ''}''"

definition json_row :: "'v json_codec \<Rightarrow> 'v row \<Rightarrow> gerr + bytes" where
  "json_row J row =
     bind_ok (map_ok (\<lambda>k. case row k of
           None \<Rightarrow> Inr []
         | Some v \<Rightarrow> bind_ok (json_value J v) (\<lambda>b. Inr (json_field k b)))
         (sorted_list_of_set (dom row)))
       (\<lambda>ms. Inr (json_object ms))"

text \<open>A member tagged \<open>omitempty\<close>: left out when the map is \<open>nil\<close> or has no keys.\<close>

definition json_omitempty :: "'v json_codec \<Rightarrow> string \<Rightarrow> 'v row option \<Rightarrow> gerr + bytes list" where
  "json_omitempty J name m =
     (case m of
        None \<Rightarrow> Inr []
      | Some row \<Rightarrow> if sorted_list_of_set (dom row) = [] then Inr []
          else bind_ok (json_row J row) (\<lambda>b. Inr [json_field name b]))"

definition json_event :: "'v json_codec \<Rightarrow> 'v change_event \<Rightarrow> gerr + bytes" where
  "json_event J ev =
     bind_ok (json_omitempty J ''new'' (ev_new ev)) (\<lambda>new.
     bind_ok (json_omitempty J ''old'' (ev_old ev)) (\<lambda>old.
     bind_ok (jc_time J (ev_timestamp ev)) (\<lambda>stamp.
       Inr (json_object
         ([json_field ''action'' (json_string (ev_action ev)),
           json_field ''schema'' (json_string (ev_schema ev)),
           json_field ''table'' (json_string (ev_table ev))] @ new @ old @
          [json_field ''timestamp'' stamp, json_field ''lsn'' (json_string (ev_lsn ev)),
           json_field ''xid'' (decimal (unat (ev_xid ev)))])))))"

definition json_events :: "'v json_codec \<Rightarrow> 'v change_event list \<Rightarrow> gerr + bytes" where
  "json_events J evs =
     bind_ok (map_ok (json_event J) evs) (\<lambda>ms. Inr (''['' @ join '','' ms @ '']''))"

definition json_batch_output :: "'v json_codec \<Rightarrow> 'v change_event list \<Rightarrow> gerr + bytes" where
  "json_batch_output J evs =
     bind_ok (json_events J evs) (\<lambda>b. Inr (json_object
       [json_field ''batch_size'' (decimal (length evs)), json_field ''events'' b]))"

record 'v dlq_entry =
  dq_event :: "'v change_event"
  dq_error :: string
  dq_failed_at :: time

definition json_dlq_entry :: "'v json_codec \<Rightarrow> 'v dlq_entry \<Rightarrow> gerr + bytes" where
  "json_dlq_entry J en =
     bind_ok (json_event J (dq_event en)) (\<lambda>b.
     bind_ok (jc_time J (dq_failed_at en)) (\<lambda>stamp.
       Inr (json_object
         [json_field ''event'' b, json_field ''error'' (json_string (dq_error en)),
          json_field ''failed_at'' stamp])))"

section \<open>What is never in the text\<close>

text \<open>No control byte: a text of one event is one line.\<close>

definition printable :: "bytes \<Rightarrow> bool" where
  "printable s \<longleftrightarrow> (\<forall>c \<in> set s. 32 \<le> byte_val c)"

lemma printable_append [simp, go_string]: "printable (s @ t) \<longleftrightarrow> printable s \<and> printable t"
  by (auto simp: printable_def)

lemma printable_Cons [simp, go_string]: "printable (c # t) \<longleftrightarrow> 32 \<le> byte_val c \<and> printable t"
  by (auto simp: printable_def)

lemma printable_Nil [simp, go_string]: "printable []"
  by (simp add: printable_def)

lemma hex_digit_printable [simp]: "n < 16 \<Longrightarrow> 32 \<le> byte_val (hex_digit n)"
  by (simp add: hex_digit_def)

lemma json_escape_printable: "byte_val c < 128 \<Longrightarrow> printable (json_escape c)"
  by (auto simp: json_escape_def json_safe_def)

lemma json_body_printable: "printable (json_body s)"
proof (induction s rule: json_body.induct)
  case (2 c cs)
  show ?case
  proof (cases "byte_val c < 128")
    case True
    then show ?thesis using 2(1) by (simp add: json_escape_printable)
  next
    case False
    obtain r n where rn: "decode_rune (c # cs) = (r, n)" by fastforce
    have wide: "printable (take n (c # cs))"
      using decode_rune_high [OF rn False] by (fastforce simp: printable_def)
    show ?thesis
      using False 2(2-4) [OF False rn [symmetric]] rn wide by auto
  qed
qed simp

lemma json_string_printable [simp]: "printable (json_string s)"
  by (simp add: json_string_def json_body_printable)

lemma decimal_printable [simp]: "printable (decimal n)"
proof (induction n rule: decimal.induct)
  case (1 n)
  then show ?case by (subst decimal.simps) auto
qed

lemma join_printable: "printable sep \<Longrightarrow> (\<forall>x \<in> set xs. printable x) \<Longrightarrow> printable (join sep xs)"
  by (induction sep xs rule: join.induct) auto

lemma bind_ok_Inr: "bind_ok r f = Inr y \<longleftrightarrow> (\<exists>x. r = Inr x \<and> f x = Inr y)"
  by (auto simp: bind_ok_def split: sum.split)

lemma map_ok_Inr: "map_ok f xs = Inr ys \<longleftrightarrow> list_all2 (\<lambda>x y. f x = Inr y) xs ys"
  by (induction xs arbitrary: ys) (auto simp: bind_ok_Inr list_all2_Cons1)

lemma json_field_printable: "printable v \<Longrightarrow> printable (json_field name v)"
  by (simp add: json_field_def)

lemma json_object_printable: "\<forall>m \<in> set ms. printable m \<Longrightarrow> printable (json_object ms)"
  by (simp add: json_object_def join_printable)

text \<open>What the codecs produce is one line, too: \<open>encoding/json\<close> compacts it.\<close>

definition codec_printable :: "'v json_codec \<Rightarrow> bool" where
  "codec_printable J \<longleftrightarrow> (\<forall>v b. jc_value J v = Inr b \<longrightarrow> printable b) \<and> (\<forall>t b. jc_time J t = Inr b \<longrightarrow> printable b)"

lemma json_value_printable: "codec_printable J \<Longrightarrow> json_value J v = Inr b \<Longrightarrow> printable b"
  by (auto simp: json_value_def codec_printable_def split: val.splits)

lemma json_row_printable:
  assumes "codec_printable J" and "json_row J row = Inr b"
  shows "printable b"
proof -
  obtain ms where ms: "list_all2 (\<lambda>k m. (case row k of None \<Rightarrow> Inr [] | Some v \<Rightarrow>
        bind_ok (json_value J v) (\<lambda>b. Inr (json_field k b))) = Inr m) (sorted_list_of_set (dom row)) ms"
    and b: "b = json_object ms"
    using assms(2) by (auto simp: json_row_def bind_ok_Inr map_ok_Inr)
  have "printable m" if mem: "m \<in> set ms" for m
  proof -
    obtain k where "(case row k of None \<Rightarrow> Inr [] | Some v \<Rightarrow>
        bind_ok (json_value J v) (\<lambda>b. Inr (json_field k b))) = Inr m"
      using list_all2_in_set [OF ms mem] by blast
    then show ?thesis
      using json_value_printable [OF assms(1)]
      by (auto simp: bind_ok_Inr json_field_printable split: option.splits)
  qed
  then show ?thesis
    by (simp add: b json_object_printable)
qed

lemma json_event_printable:
  assumes "codec_printable J" and "json_event J ev = Inr b"
  shows "printable b"
proof -
  have opt: "\<forall>m \<in> set ms. printable m" if "json_omitempty J name r = Inr ms" for name r ms
    using that json_row_printable [OF assms(1)]
    by (auto simp: json_omitempty_def bind_ok_Inr json_field_printable split: option.splits if_splits)
  have stamp: "jc_time J t = Inr s \<Longrightarrow> printable s" for t s
    using assms(1) by (auto simp: codec_printable_def)
  obtain new_ms old_ms t where "json_omitempty J ''new'' (ev_new ev) = Inr new_ms"
      "json_omitempty J ''old'' (ev_old ev) = Inr old_ms" "jc_time J (ev_timestamp ev) = Inr t"
    and b: "b = json_object
         ([json_field ''action'' (json_string (ev_action ev)),
           json_field ''schema'' (json_string (ev_schema ev)),
           json_field ''table'' (json_string (ev_table ev))] @ new_ms @ old_ms @
          [json_field ''timestamp'' t, json_field ''lsn'' (json_string (ev_lsn ev)),
           json_field ''xid'' (decimal (unat (ev_xid ev)))])"
    using assms(2) unfolding json_event_def bind_ok_Inr by blast
  note parts = this(1) [THEN opt] this(2) [THEN opt] this(3) [THEN stamp]
  show ?thesis
    unfolding b by (rule json_object_printable, unfold set_append ball_Un)
      (intro conjI, (simp_all add: parts json_field_printable))
qed

lemma json_events_printable:
  assumes "codec_printable J" and "json_events J evs = Inr b"
  shows "printable b"
proof -
  obtain ms where ms: "list_all2 (\<lambda>ev m. json_event J ev = Inr m) evs ms" and b: "b = ''['' @ join '','' ms @ '']''"
    using assms(2) by (auto simp: json_events_def bind_ok_Inr map_ok_Inr)
  have "printable m" if "m \<in> set ms" for m
    using list_all2_in_set [OF ms that] json_event_printable [OF assms(1)] by blast
  then show ?thesis
    by (simp add: b join_printable)
qed

section \<open>Reading a string back\<close>

definition hex_val :: "char \<Rightarrow> nat option" where
  "hex_val c =
     (if 48 \<le> byte_val c \<and> byte_val c \<le> 57 then Some (byte_val c - 48)
      else if 97 \<le> byte_val c \<and> byte_val c \<le> 102 then Some (byte_val c - 87) else None)"

text \<open>The string a JSON string body stands for, as RFC 8259 reads it (without surrogate pairs,
  which the encoder does not write).\<close>

fun json_unescape :: "bytes \<Rightarrow> bytes option" where
  "json_unescape [] = Some []"
| "json_unescape (c # cs) =
     (if c = CHR 0x5C then
        (case cs of
           d # ds \<Rightarrow>
             if d = CHR ''u'' then
               (case ds of
                  a # b # e # f # rest \<Rightarrow> do {
                    x \<leftarrow> hex_val a; y \<leftarrow> hex_val b; z \<leftarrow> hex_val e; u \<leftarrow> hex_val f;
                    t \<leftarrow> json_unescape rest;
                    Some (encode_rune (((x * 16 + y) * 16 + z) * 16 + u) @ t) }
                | _ \<Rightarrow> None)
             else (case map_of [(CHR ''b'', CHR 0x08), (CHR ''f'', CHR 0x0C), (CHR ''n'', CHR 0x0A),
                      (CHR ''r'', CHR 0x0D), (CHR ''t'', CHR 0x09), (CHR 0x22, CHR 0x22), (CHR 0x5C, CHR 0x5C)] d of
                 None \<Rightarrow> None
               | Some x \<Rightarrow> map_option (Cons x) (json_unescape ds))
         | [] \<Rightarrow> None)
      else if c = CHR 0x22 \<or> byte_val c < 32 then None
      else map_option (Cons c) (json_unescape cs))"

text \<open>No invalid byte: every \<open>rune_error\<close> is one that was written out.\<close>

fun valid_utf8 :: "bytes \<Rightarrow> bool" where
  "valid_utf8 [] = True"
| "valid_utf8 (c # cs) =
     (case decode_rune (c # cs) of (r, n) \<Rightarrow>
        \<not> (r = rune_error \<and> n = 1) \<and> valid_utf8 (drop (n - 1) cs))"

lemma hex_val_digit [simp]: "n < 16 \<Longrightarrow> hex_val (hex_digit n) = Some n"
  by (auto simp: hex_val_def hex_digit_def)

lemma json_unescape_safe:
  "c \<noteq> CHR 0x5C \<Longrightarrow> c \<noteq> CHR 0x22 \<Longrightarrow> 32 \<le> byte_val c \<Longrightarrow> json_unescape (c # cs) = map_option (Cons c) (json_unescape cs)"
  by simp

lemma json_unescape_wide:
  "\<forall>c \<in> set s. 128 \<le> byte_val c \<Longrightarrow> json_unescape (s @ t) = map_option ((@) s) (json_unescape t)"
proof (induction s)
  case (Cons c s)
  then have "c \<noteq> CHR 0x5C" "c \<noteq> CHR 0x22" "32 \<le> byte_val c" by auto
  with Cons show ?case
    by (simp add: json_unescape_safe option.map_comp comp_def del: json_unescape.simps)
qed (cases "json_unescape t", simp_all)

lemma json_unescape_u:
  "json_unescape (CHR 0x5C # CHR ''u'' # a # b # e # f # rest) =
     (case (hex_val a, hex_val b, hex_val e, hex_val f) of
        (Some x, Some y, Some z, Some u) \<Rightarrow>
          map_option ((@) (encode_rune (((x * 16 + y) * 16 + z) * 16 + u))) (json_unescape rest)
      | _ \<Rightarrow> None)"
  by (subst json_unescape.simps) (auto split: option.splits bind_splits)

lemma json_unescape_escape:
  assumes "byte_val c < 128"
  shows "json_unescape (json_escape c @ t) = map_option (Cons c) (json_unescape t)"
proof -
  consider "json_safe c" | "c \<in> set [CHR 0x5C, CHR 0x22, CHR 0x08, CHR 0x0C, CHR 0x0A, CHR 0x0D, CHR 0x09]"
    | "\<not> json_safe c" "c \<notin> set [CHR 0x5C, CHR 0x22, CHR 0x08, CHR 0x0C, CHR 0x0A, CHR 0x0D, CHR 0x09]"
    by blast
  then show ?thesis
  proof cases
    case 1
    then show ?thesis by (simp add: json_escape_def json_safe_def json_unescape_safe del: json_unescape.simps)
  next
    case 2
    then show ?thesis by (auto simp: json_escape_def json_safe_def)
  next
    case 3
    then have esc: "json_escape c @ t = CHR 0x5C # CHR ''u'' # CHR ''0'' # CHR ''0'' #
        hex_digit (byte_val c div 16) # hex_digit (byte_val c mod 16) # t"
      by (simp add: json_escape_def)
    have "hex_val (CHR ''0'') = Some 0" by (simp add: hex_val_def)
    moreover have "encode_rune (byte_val c div 16 * 16 + byte_val c mod 16) = [c]"
      using assms by (simp only: div_mult_mod_eq) (simp add: encode_rune_ascii)
    moreover have "hex_val (hex_digit (byte_val c div 16)) = Some (byte_val c div 16)"
        "hex_val (hex_digit (byte_val c mod 16)) = Some (byte_val c mod 16)"
      using assms by (simp_all add: less_mult_imp_div_less)
    ultimately show ?thesis
      unfolding esc json_unescape_u by (cases "json_unescape t") simp_all
  qed
qed

lemma decode_rune_three:
  assumes "decode_rune (c # cs) = (r, n)" and "2048 \<le> r" and "r < 65533"
  obtains c1 c2 rest where "cs = c1 # c2 # rest" "n = 3"
    "r = (byte_val c - 224) * 4096 + (byte_val c1 - 128) * 64 + (byte_val c2 - 128)"
    "224 \<le> byte_val c" "128 \<le> byte_val c1" "byte_val c1 \<le> 191" "128 \<le> byte_val c2" "byte_val c2 \<le> 191"
proof -
  consider "byte_val c < 128" | "\<not> byte_val c < 128" "byte_val c < 224" | "224 \<le> byte_val c" "byte_val c < 240"
    | "240 \<le> byte_val c"
    by linarith
  then show thesis
  proof cases
    case 1
    with assms show ?thesis by simp
  next
    case 2
    have "r = rune_error \<or> r \<le> 31 * 64 + 63"
      using assms(1) 2 unfolding decode_rune_def Let_def
      by (auto simp: cont_byte_def split: if_splits list.splits)
    with assms(2,3) show ?thesis by (simp add: rune_error_def)
  next
    case 3
    have "\<exists>c1 c2 rest. cs = c1 # c2 # rest"
      using assms(1,3) 3 unfolding decode_rune_def Let_def
      by (simp split: if_splits list.splits) (simp_all add: rune_error_def)
    then obtain c1 c2 rest where cs: "cs = c1 # c2 # rest" by blast
    have ok: "accept_lo (byte_val c) \<le> byte_val c1 \<and> byte_val c1 \<le> accept_hi (byte_val c) \<and> cont_byte c2"
      using assms(1,3) 3 cs unfolding decode_rune_def Let_def by (simp add: rune_error_def split: if_splits)
    then have "128 \<le> byte_val c1" "byte_val c1 \<le> 191" "128 \<le> byte_val c2" "byte_val c2 \<le> 191"
      by (simp_all add: accept_lo_def accept_hi_def cont_byte_def split: if_splits)
    moreover have "r = (byte_val c - 224) * 4096 + (byte_val c1 - 128) * 64 + (byte_val c2 - 128)" "n = 3"
      using assms(1) 3 cs ok unfolding decode_rune_def Let_def by simp_all
    ultimately show ?thesis
      using that cs 3 by blast
  next
    case 4
    have "r = rune_error \<or> 65536 \<le> r"
    proof (cases "byte_val c = 240")
      case True
      then show ?thesis
        using assms(1) unfolding decode_rune_def Let_def
        by (auto simp: cont_byte_def accept_lo_def split: if_splits list.splits)
    next
      case False
      with 4 have "262144 \<le> (byte_val c - 240) * 262144" by simp
      then show ?thesis
        using assms(1) 4 unfolding decode_rune_def Let_def
        by (auto simp: cont_byte_def accept_lo_def split: if_splits list.splits)
    qed
    with assms(2,3) show ?thesis by (simp add: rune_error_def)
  qed
qed

lemma separator_rune:
  assumes "decode_rune (c # cs) = (r, n)" and "r = 8232 \<or> r = 8233"
  shows "take n (c # cs) = encode_rune r"
proof -
  have bounds: "2048 \<le> r" "r < 65533"
    using assms(2) by auto
  obtain c1 c2 rest where cs: "cs = c1 # c2 # rest" "n = 3"
    and r: "r = (byte_val c - 224) * 4096 + (byte_val c1 - 128) * 64 + (byte_val c2 - 128)"
    and b: "224 \<le> byte_val c" "128 \<le> byte_val c1" "byte_val c1 \<le> 191" "128 \<le> byte_val c2" "byte_val c2 \<le> 191"
    using decode_rune_three [OF assms(1) bounds] by blast
  define x y z where "x = byte_val c - 224" and "y = byte_val c1 - 128" and "z = byte_val c2 - 128"
  have xyz: "byte_val c = 224 + x" "byte_val c1 = 128 + y" "byte_val c2 = 128 + z"
    using b by (simp_all add: x_def y_def z_def)
  have small: "y < 64" "z < 64"
    using b by (simp_all add: y_def z_def)
  have "r = x * 4096 + y * 64 + z"
    using r by (simp add: x_def y_def z_def)
  then have "r = (x * 64 + y) * 64 + z" by simp
  with small have q: "r div 64 = x * 64 + y" "r mod 64 = z"
    using mod_mult_self3 [of "x * 64 + y" 64 z] by simp_all
  with small have "r div 64 div 64 = x" "r div 64 mod 64 = y"
    by simp_all
  with q(2) assms(2) have "x = 2 \<and> y = 0 \<and> z = r - 8192"
    by auto
  then have bytes: "byte_val c = 226" "byte_val c1 = 128" "byte_val c2 = r - 8192 + 128"
    using xyz by simp_all
  have char: "byte_of k = d" if "byte_val d = k" for d and k :: nat
    by (simp add: that [symmetric])
  have "encode_rune r = [byte_of 226, byte_of 128, byte_of (r - 8192 + 128)]"
    using assms(2) by (elim disjE) (simp_all add: encode_rune_def)
  also have "\<dots> = [c, c1, c2]"
    by (simp only: char [OF bytes(1)] char [OF bytes(2)] char [OF bytes(3)])
  finally show ?thesis
    by (simp add: cs)
qed

lemma json_unescape_body:
  "valid_utf8 s \<Longrightarrow> json_unescape (json_body s @ t) = map_option ((@) s) (json_unescape t)"
proof (induction s arbitrary: t rule: json_body.induct)
  case 1
  then show ?case by (cases "json_unescape t") simp_all
next
  case (2 c cs)
  obtain r n where rn: "decode_rune (c # cs) = (r, n)" by fastforce
  have split: "c # cs = take n (c # cs) @ drop (n - 1) cs"
    using decode_rune_width(1) [OF rn] by (cases n) simp_all
  from 2(5) rn have ok: "\<not> (r = rune_error \<and> n = 1)" "valid_utf8 (drop (n - 1) cs)" by simp_all
  note [simp del] = json_unescape.simps json_body.simps
  consider "byte_val c < 128" | "\<not> byte_val c < 128" "r = 8232 \<or> r = 8233"
    | "\<not> byte_val c < 128" "\<not> (r = 8232 \<or> r = 8233)"
    by blast
  then show ?case
  proof cases
    case 1
    with rn have "n = 1" by simp
    moreover have "json_body (c # cs) = json_escape c @ json_body cs"
      using 1 by (simp add: json_body.simps)
    ultimately show ?thesis
      using 1 2(1) [OF 1] ok by (simp add: json_unescape_escape option.map_comp comp_def)
  next
    case 2
    have "hex_val (CHR ''2'') = Some 2" "hex_val (CHR ''0'') = Some 0"
      by (simp_all add: hex_val_def)
    moreover have "hex_val (hex_digit (r mod 16)) = Some (r mod 16)"
      by (rule hex_val_digit) simp
    moreover have "((2 * 16 + 0) * 16 + 2) * 16 + r mod 16 = r"
      using 2(2) by auto
    ultimately have sep: "json_unescape (CHR 0x5C # CHR ''u'' # CHR ''2'' # CHR ''0'' # CHR ''2'' # hex_digit (r mod 16) # t)
        = map_option ((@) (take n (c # cs))) (json_unescape t)" for t
      unfolding json_unescape_u separator_rune [OF rn 2(2)] by simp
    have "json_body (c # cs) = CHR 0x5C # CHR ''u'' # CHR ''2'' # CHR ''0'' # CHR ''2'' # hex_digit (r mod 16)
        # json_body (drop (n - 1) cs)"
      using 2 rn ok by (simp add: json_body.simps)
    moreover have "json_unescape (json_body (drop (n - 1) cs) @ t)
        = map_option ((@) (drop (n - 1) cs)) (json_unescape t)"
      using "2.IH"(3) [OF 2(1) rn [symmetric] ok(1) 2(2)] ok(2) by simp
    ultimately show ?thesis
      by (subst (2) split) (cases "json_unescape t", simp_all add: sep)
  next
    case 3
    have "json_body (c # cs) = take n (c # cs) @ json_body (drop (n - 1) cs)"
      using 3 rn ok by (simp add: json_body.simps)
    moreover have "json_unescape (json_body (drop (n - 1) cs) @ t)
        = map_option ((@) (drop (n - 1) cs)) (json_unescape t)"
      using "2.IH"(4) [OF 3(1) rn [symmetric] ok(1) 3(2)] ok(2) by simp
    ultimately show ?thesis
      by (subst (2) split) (cases "json_unescape t", simp_all add: json_unescape_wide [OF decode_rune_high [OF rn 3(1)]])
  qed
qed

lemma json_string_inject:
  assumes "valid_utf8 s" and "valid_utf8 t"
  shows "json_string s = json_string t \<longleftrightarrow> s = t"
proof
  assume "json_string s = json_string t"
  then have "json_body s = json_body t"
    by (simp add: json_string_def)
  then show "s = t"
    using json_unescape_body [OF assms(1), of "[]"] json_unescape_body [OF assms(2), of "[]"] by simp
qed simp

lemma newline_not_printable: "printable s \<Longrightarrow> CHR 0x0A \<notin> set s"
  by (auto simp: printable_def)

end
