(* ===== verification/Destinations.thy ===== *)
theory Destinations
  imports Batch Json
begin

text \<open>
  The destinations at the end of a chain of sinks: \<open>internal/sink/webhook.go\<close>,
  \<open>webhook_batch.go\<close>, \<open>stdout.go\<close>, \<open>stdout_batch.go\<close> and \<open>kafka.go\<close>, each with its
  model and the proof that it keeps the contract of its interface.
\<close>

section \<open>HTTP\<close>

text \<open>A request; the answer is the next one of the world.\<close>

definition http_do :: "http_post \<Rightarrow> world \<Rightarrow> world \<times> (gerr + nat)" where
  "http_do req w = (w\<lparr>w_posts := w_posts w @ [req]\<rparr>, w_http w (length (w_posts w)))"

text \<open>\<open>NewRequestWithContext\<close> fails only for a URL that does not parse, which is a parameter.\<close>

record webhook =
  wh_url :: string
  wh_url_error :: "gerr option"
  wh_timeout :: int

text \<open>\<open>NewWebhookSink\<close> and \<open>NewWebhookBatchSink\<close>; the time-out of the client is in seconds.\<close>

definition new_webhook_sink :: "(string \<Rightarrow> gerr option) \<Rightarrow> string \<Rightarrow> webhook" where
  "new_webhook_sink parse_url url = \<lparr>wh_url = url, wh_url_error = parse_url url, wh_timeout = 10\<rparr>"

definition new_webhook_batch_sink :: "(string \<Rightarrow> gerr option) \<Rightarrow> string \<Rightarrow> webhook" where
  "new_webhook_batch_sink parse_url url = \<lparr>wh_url = url, wh_url_error = parse_url url, wh_timeout = 30\<rparr>"

definition status_error :: "string \<Rightarrow> nat \<Rightarrow> gerr" where
  "status_error url code = ErrMsg (''POST '' @ url @ '' returned '' @ decimal code)"

definition post_json :: "webhook \<Rightarrow> (string \<times> string) list \<Rightarrow> bytes \<Rightarrow> world \<Rightarrow> world \<times> gerr option" where
  "post_json s headers body w =
     (case wh_url_error s of
        Some e \<Rightarrow> (w, Some (Wrapped ''create request: '' e))
      | None \<Rightarrow>
          (case http_do \<lparr>hp_url = wh_url s, hp_headers = headers, hp_body = body\<rparr> w of
             (w', Inl e) \<Rightarrow> (w', Some (Wrapped (''POST '' @ wh_url s @ '': '') e))
           | (w', Inr code) \<Rightarrow>
               if code < 200 \<or> code \<ge> 300 then (w', Some (status_error (wh_url s) code))
               else (w', None)))"

definition event_headers :: "'v change_event \<Rightarrow> (string \<times> string) list" where
  "event_headers ev =
     [(''Content-Type'', ''application/json''), (''X-PGCDC-Action'', ev_action ev),
      (''X-PGCDC-Table'', ev_schema ev @ ''.'' @ ev_table ev)]"

definition batch_headers :: "'v change_event list \<Rightarrow> (string \<times> string) list" where
  "batch_headers evs =
     [(''Content-Type'', ''application/json''), (''X-PGCDC-Batch-Size'', decimal (length evs))]"

definition webhook_deliver ::
    "'v json_codec \<Rightarrow> webhook \<Rightarrow> 'v change_event \<Rightarrow> world \<Rightarrow> (world \<times> gerr option) option" where
  "webhook_deliver J s ev w = Some
     (case json_event J ev of
        Inl e \<Rightarrow> (w, Some (Wrapped ''marshal event: '' e))
      | Inr body \<Rightarrow> post_json s (event_headers ev) body w)"

definition webhook_deliver_batch ::
    "'v json_codec \<Rightarrow> webhook \<Rightarrow> 'v change_event list \<Rightarrow> world \<Rightarrow> world \<times> gerr option" where
  "webhook_deliver_batch J s evs w =
     (case json_events J evs of
        Inl e \<Rightarrow> (w, Some (Wrapped ''marshal batch: '' e))
      | Inr body \<Rightarrow> post_json s (batch_headers evs) body w)"

definition log_close :: "string \<Rightarrow> world \<Rightarrow> world \<times> gerr option" where
  "log_close name w = (w\<lparr>w_closed := w_closed w @ [name]\<rparr>, None)"

definition webhook_sink :: "'v json_codec \<Rightarrow> webhook \<Rightarrow> 'v sink" where
  "webhook_sink J s = \<lparr>deliver = webhook_deliver J s, close = log_close ''http''\<rparr>"

definition webhook_batch_sink :: "'v json_codec \<Rightarrow> webhook \<Rightarrow> 'v batch_deliverer" where
  "webhook_batch_sink J s = \<lparr>deliver_batch = webhook_deliver_batch J s, close_batch = log_close ''http''\<rparr>"

section \<open>Standard output\<close>

definition stdout_write :: "gerr + bytes \<Rightarrow> world \<Rightarrow> world \<times> gerr option" where
  "stdout_write json w =
     (case encode json (w_stdout w) of (enc, r) \<Rightarrow> (w\<lparr>w_stdout := enc\<rparr>, r))"

definition stdout_sink :: "'v json_codec \<Rightarrow> 'v sink" where
  "stdout_sink J = \<lparr>deliver = (\<lambda>ev w. Some (stdout_write (json_event J ev) w)), close = (\<lambda>w. (w, None))\<rparr>"

text \<open>A new sink has a new encoder on standard output, with no write error yet. The progress line on
  standard error is not modelled.\<close>

definition new_stdout_sink :: "'v json_codec \<Rightarrow> (nat \<Rightarrow> gerr option) \<Rightarrow> world \<Rightarrow> 'v sink \<times> world" where
  "new_stdout_sink J writes w = (stdout_sink J, w\<lparr>w_stdout := new_encoder writes\<rparr>)"

definition stdout_batch_sink :: "'v json_codec \<Rightarrow> 'v batch_deliverer" where
  "stdout_batch_sink J =
     \<lparr>deliver_batch = (\<lambda>evs. stdout_write (json_batch_output J evs)), close_batch = (\<lambda>w. (w, None))\<rparr>"

definition new_stdout_batch_sink ::
    "'v json_codec \<Rightarrow> (nat \<Rightarrow> gerr option) \<Rightarrow> world \<Rightarrow> 'v batch_deliverer \<times> world" where
  "new_stdout_batch_sink J writes w = (stdout_batch_sink J, w\<lparr>w_stdout := new_encoder writes\<rparr>)"

section \<open>Kafka\<close>

definition produce_sync :: "kafka_record \<Rightarrow> world \<Rightarrow> world \<times> gerr option" where
  "produce_sync r w = (w\<lparr>w_records := w_records w @ [r]\<rparr>, w_kafka w (length (w_records w)))"

text \<open>A \<open>nil\<close> key, from a value that does not marshal, is the empty one.\<close>

definition build_key :: "'v json_codec \<Rightarrow> 'v change_event \<Rightarrow> bytes" where
  "build_key J ev =
     (let source = (case ev_new ev of None \<Rightarrow> ev_old ev | Some row \<Rightarrow> Some row);
          fallback = ev_schema ev @ ''.'' @ ev_table ev @ ''.'' @ ev_lsn ev
      in case source of
           None \<Rightarrow> fallback
         | Some row \<Rightarrow> (case row ''id'' of
               None \<Rightarrow> fallback
             | Some i \<Rightarrow> (case json_row J [''id'' \<mapsto> i] of Inl e \<Rightarrow> [] | Inr key \<Rightarrow> key)))"

definition topic_of :: "string \<Rightarrow> 'v change_event \<Rightarrow> string" where
  "topic_of prefix ev = prefix @ ''.'' @ ev_schema ev @ ''.'' @ ev_table ev"

definition kafka_deliver ::
    "'v json_codec \<Rightarrow> string \<Rightarrow> 'v change_event \<Rightarrow> world \<Rightarrow> (world \<times> gerr option) option" where
  "kafka_deliver J prefix ev w = Some
     (let topic = topic_of prefix ev;
          key = build_key J ev
      in case json_event J ev of
           Inl e \<Rightarrow> (w, Some (Wrapped ''marshal event: '' e))
         | Inr body \<Rightarrow>
             (case produce_sync \<lparr>kr_topic = topic, kr_key = key, kr_value = body\<rparr> w of
                (w', Some e) \<Rightarrow> (w', Some (Wrapped (''kafka produce to '' @ topic @ '': '') e))
              | (w', None) \<Rightarrow> (w', None)))"

definition kafka_sink :: "'v json_codec \<Rightarrow> string \<Rightarrow> 'v sink" where
  "kafka_sink J prefix = \<lparr>deliver = kafka_deliver J prefix, close = log_close ''kafka''\<rparr>"

text \<open>\<open>NewKafkaSink\<close>: the calls on the client library, and the sink or an error. Times are in
  milliseconds.\<close>

record kafka_options =
  ko_brokers :: "string list"
  ko_linger :: int
  ko_max_bytes :: int
  ko_all_isr_acks :: bool

datatype kafka_call = NewClient kafka_options | Ping | CloseClient

definition new_kafka_sink ::
    "(kafka_options \<Rightarrow> gerr option) \<Rightarrow> gerr option \<Rightarrow> 'v json_codec \<Rightarrow> string \<Rightarrow> string
      \<Rightarrow> kafka_call list \<times> (gerr + 'v sink)" where
  "new_kafka_sink new_client ping J brokers prefix =
     (let opts = \<lparr>ko_brokers = split_on CHR '','' brokers, ko_linger = 10, ko_max_bytes = 64 * 1024,
        ko_all_isr_acks = True\<rparr>
      in case new_client opts of
           Some e \<Rightarrow> ([NewClient opts], Inl (Wrapped ''create kafka client: '' e))
         | None \<Rightarrow> (case ping of
               Some e \<Rightarrow> ([NewClient opts, Ping, CloseClient], Inl (Wrapped ''kafka ping failed: '' e))
             | None \<Rightarrow> ([NewClient opts, Ping], Inr (kafka_sink J prefix))))"

section \<open>The contract of each\<close>

text \<open>What counts as received: a POST of this body answered by a 2xx, a line of this text on
  standard output, a record with this value that Kafka acknowledged.\<close>

definition posted :: "string \<Rightarrow> (string \<times> string) list \<Rightarrow> gerr + bytes \<Rightarrow> world \<Rightarrow> bool" where
  "posted url headers json w \<longleftrightarrow> (\<exists>n < length (w_posts w). \<exists>body code. json = Inr body
     \<and> w_posts w ! n = \<lparr>hp_url = url, hp_headers = headers, hp_body = body\<rparr>
     \<and> w_http w n = Inr code \<and> 200 \<le> code \<and> code < 300)"

definition printed :: "gerr + bytes \<Rightarrow> world \<Rightarrow> bool" where
  "printed json w \<longleftrightarrow> (\<exists>b. json = Inr b \<and> b @ [CHR 0x0A] \<in> set (enc_out (w_stdout w)))"

definition produced :: "'v json_codec \<Rightarrow> string \<Rightarrow> 'v change_event \<Rightarrow> world \<Rightarrow> bool" where
  "produced J prefix ev w \<longleftrightarrow> (\<exists>n < length (w_records w). \<exists>body. json_event J ev = Inr body
     \<and> w_records w ! n = \<lparr>kr_topic = topic_of prefix ev, kr_key = build_key J ev, kr_value = body\<rparr>
     \<and> w_kafka w n = None)"

lemma posted_mono: "grows w w' \<Longrightarrow> posted url headers json w \<Longrightarrow> posted url headers json w'"
  unfolding posted_def grows_def by (fastforce simp: nth_append)

lemma produced_mono: "grows w w' \<Longrightarrow> produced J prefix ev w \<Longrightarrow> produced J prefix ev w'"
  unfolding produced_def grows_def by (fastforce simp: nth_append)

lemma printed_mono: "grows w w' \<Longrightarrow> printed json w \<Longrightarrow> printed json w'"
  unfolding printed_def grows_def by (blast dest: enc_grows_out)

lemma post_json_grows [go_state]: "post_json s headers body w = (w', r) \<Longrightarrow> grows w w'"
  by (auto simp: post_json_def http_do_def grows_def split: option.splits sum.splits if_splits)

lemma post_json_posted:
  assumes "post_json s headers body w = (w', None)"
  shows "posted (wh_url s) headers (Inr body) w'"
proof -
  obtain code where "w_http w (length (w_posts w)) = Inr code" "200 \<le> code" "code < 300"
      "w' = w\<lparr>w_posts := w_posts w @ [\<lparr>hp_url = wh_url s, hp_headers = headers, hp_body = body\<rparr>]\<rparr>"
    using assms by (auto simp: post_json_def http_do_def split: option.splits sum.splits if_splits)
  then show ?thesis
    unfolding posted_def by (intro exI [of _ "length (w_posts w)"]) simp
qed

lemma stdout_write_grows [go_state]: "stdout_write json w = (w', r) \<Longrightarrow> grows w w'"
  by (auto simp: stdout_write_def grows_def dest: encode_grows split: prod.splits)

lemma stdout_write_printed: "stdout_write json w = (w', None) \<Longrightarrow> printed json w'"
  by (auto simp: stdout_write_def printed_def dest: encode_ok split: prod.splits)

interpretation webhook: sink_contract "webhook_sink J s"
    "\<lambda>ev. posted (wh_url s) (event_headers ev) (json_event J ev)" for J :: "'v json_codec" and s
  by unfold_locales
    (auto simp: webhook_sink_def webhook_deliver_def posted_mono dest: post_json_grows post_json_posted
      split: sum.splits)

interpretation stdout: sink_contract "stdout_sink J" "\<lambda>ev. printed (json_event J ev)" for J :: "'v json_codec"
  by unfold_locales
    (auto simp: stdout_sink_def printed_mono dest: stdout_write_grows stdout_write_printed)

interpretation kafka: sink_contract "kafka_sink J prefix" "produced J prefix"
    for J :: "'v json_codec" and prefix
proof unfold_locales
  show "grows w w'" if "deliver (kafka_sink J prefix) ev w = Some (w', r)" for ev :: "'v change_event" and w w' r
    using that by (auto simp: kafka_sink_def kafka_deliver_def produce_sync_def grows_def Let_def
        split: sum.splits option.splits)
  show "produced J prefix ev w'" if "deliver (kafka_sink J prefix) ev w = Some (w', None)" for ev w w'
    using that by (auto simp: kafka_sink_def kafka_deliver_def produce_sync_def produced_def Let_def
        split: sum.splits option.splits intro!: exI [of _ "length (w_records w)"])
qed (auto simp: kafka_sink_def kafka_deliver_def Let_def produced_mono)

interpretation webhook_batch: batch_contract "webhook_batch_sink J s"
    "\<lambda>evs. posted (wh_url s) (batch_headers evs) (json_events J evs)" for J :: "'v json_codec" and s
  by unfold_locales
    (auto simp: webhook_batch_sink_def webhook_deliver_batch_def posted_mono
      dest: post_json_grows post_json_posted split: sum.splits)

interpretation stdout_batch: batch_contract "stdout_batch_sink J" "\<lambda>evs. printed (json_batch_output J evs)"
    for J :: "'v json_codec"
  by unfold_locales
    (auto simp: stdout_batch_sink_def printed_mono dest: stdout_write_grows stdout_write_printed)

section \<open>Properties\<close>

text \<open>
  A webhook gives \<open>nil\<close> exactly when the event marshals, the URL is one, and the answer to
  the POST has a status from 200 to 299; one request is made, with the event's headers, whenever
  the first two hold.
\<close>

theorem webhook_nil_iff_2xx:
  "\<exists>w' r. webhook_deliver J s ev w = Some (w', r)
    \<and> (r = None \<longleftrightarrow> (\<exists>body code. json_event J ev = Inr body \<and> wh_url_error s = None
        \<and> w_http w (length (w_posts w)) = Inr code \<and> 200 \<le> code \<and> code < 300))
    \<and> w_posts w' = w_posts w @ (case (json_event J ev, wh_url_error s) of
        (Inr body, None) \<Rightarrow> [\<lparr>hp_url = wh_url s, hp_headers = event_headers ev, hp_body = body\<rparr>] | _ \<Rightarrow> [])"
  by (auto simp: webhook_deliver_def post_json_def http_do_def not_le not_less split: sum.split option.split)

lemma build_key_string:
  assumes "(case ev_new ev of None \<Rightarrow> ev_old ev | Some row \<Rightarrow> Some row) = Some row"
    and "row ''id'' = Some (VString i)"
  shows "build_key J ev = ''{'' @ json_string ''id'' @ '':'' @ json_string i @ ''}''"
  using assms by (simp add: build_key_def json_row_def json_value_def bind_ok_def json_object_def json_field_def)

text \<open>
  A Kafka key stands for a row: of two events whose rows (the new one, or the old one when
  there is no new) have a text as their \<open>id\<close>, the keys are the same exactly when the two texts
  are, whatever the actions and the other columns; and events of one table go to one topic.
\<close>

theorem kafka_key_identifies_row:
  assumes "(case ev_new ev of None \<Rightarrow> ev_old ev | Some row \<Rightarrow> Some row) = Some row"
    and "row ''id'' = Some (VString i)" and "valid_utf8 i"
    and "(case ev_new ev' of None \<Rightarrow> ev_old ev' | Some row \<Rightarrow> Some row) = Some row'"
    and "row' ''id'' = Some (VString i')" and "valid_utf8 i'"
  shows "(build_key J ev = build_key J ev' \<longleftrightarrow> i = i')
    \<and> (ev_schema ev = ev_schema ev' \<and> ev_table ev = ev_table ev' \<longrightarrow> topic_of prefix ev = topic_of prefix ev')"
  unfolding build_key_string [OF assms(1,2)] build_key_string [OF assms(4,5)]
  by (simp add: json_string_inject [OF assms(3,6)] topic_of_def)

text \<open>
  A row without a column called \<open>id\<close> has no key of its own, whatever its primary key is: its key
  holds the position of the change, so two changes of the same row at different positions have
  different keys, and Kafka may put them on different partitions.
\<close>

theorem kafka_key_changes_without_id:
  assumes "ev_new ev = Some row" and "row ''id'' = None" and "ev_lsn ev \<noteq> l"
  shows "build_key J ev \<noteq> build_key J (ev\<lparr>ev_lsn := l\<rparr>)"
  using assms by (simp add: build_key_def)

text \<open>
  A sink for a list of brokers connects to exactly these, and never leaves a client open
  when it is not returned.
\<close>

lemma new_kafka_sink_calls:
  assumes "bs \<noteq> []" and "\<forall>b \<in> set bs. CHR '','' \<notin> set b"
  shows "\<exists>opts rest. fst (new_kafka_sink new_client ping J (join '','' bs) prefix) = NewClient opts # rest
    \<and> ko_brokers opts = bs
    \<and> ((\<exists>e. snd (new_kafka_sink new_client ping J (join '','' bs) prefix) = Inl e)
        \<longrightarrow> new_client opts \<noteq> None \<or> CloseClient \<in> set rest)"
  using split_on_join [OF assms(1), of "CHR '',''"] assms(2)
  by (auto simp: new_kafka_sink_def Let_def split: option.split)

section \<open>A small world\<close>

text \<open>The first request is answered 500 and every later one 200; nothing else fails and the
  context is not cancelled.\<close>

definition fine_encoder :: encoder where
  "fine_encoder = \<lparr>enc_write = (\<lambda>n. None), enc_calls = 0, enc_err = None, enc_out = []\<rparr>"

definition sample_world :: world where
  "sample_world =
     \<lparr>w_http = (\<lambda>n. Inr (if n = 0 then 500 else 200)), w_posts = [], w_kafka = (\<lambda>n. None), w_records = [],
      w_stdout = fine_encoder, w_dlq = fine_encoder, w_clock = int, w_reads = 0,
      w_cancelled = (\<lambda>n. False), w_ctx_error = ErrMsg ''context canceled'', w_polls = 0, w_rand = (\<lambda>n. 2 ^ 52), w_sleeps = [],
      w_metrics = [], w_closed = []\<rparr>"

definition sample_codec :: "nat json_codec" where
  "sample_codec = \<lparr>jc_value = (\<lambda>v. Inr (decimal v)), jc_time = (\<lambda>t. Inr (json_string ''now''))\<rparr>"

definition row_event_of :: "string \<Rightarrow> nat row option \<Rightarrow> nat row option \<Rightarrow> nat change_event" where
  "row_event_of action new_row old_row =
     \<lparr>ev_action = action, ev_schema = ''public'', ev_table = ''users'', ev_new = new_row, ev_old = old_row,
      ev_timestamp = 1, ev_lsn = ''0/1'', ev_xid = 5\<rparr>"

definition sample_hook :: webhook where
  "sample_hook = \<lparr>wh_url = ''http://h'', wh_url_error = None, wh_timeout = 10\<rparr>"

lemma plain_event_json: "\<exists>body. json_event sample_codec (row_event_of action None None) = Inr body"
  by (simp add: json_event_def json_omitempty_def bind_ok_def sample_codec_def row_event_of_def)

theorem kafka_key_identifies_row_witness:
  "build_key sample_codec (row_event_of ''INSERT'' (Some [''id'' \<mapsto> VString ''7'', ''name'' \<mapsto> VNil]) None)
     = build_key sample_codec (row_event_of ''DELETE'' None (Some [''id'' \<mapsto> VString ''7'']))"
proof -
  have "valid_utf8 ''7''"
    by (simp add: decode_rune_def rune_error_def)
  then show ?thesis
    using kafka_key_identifies_row [of "row_event_of ''INSERT'' (Some [''id'' \<mapsto> VString ''7'', ''name'' \<mapsto> VNil]) None"
        "[''id'' \<mapsto> VString ''7'', ''name'' \<mapsto> VNil]" "''7''" "row_event_of ''DELETE'' None (Some [''id'' \<mapsto> VString ''7''])"
        "[''id'' \<mapsto> VString ''7'']" "''7''" sample_codec]
    by (simp add: row_event_of_def)
qed

theorem kafka_key_changes_without_id_witness:
  "build_key sample_codec (row_event_of ''UPDATE'' (Some [''user_id'' \<mapsto> VString ''7'']) None)
     \<noteq> build_key sample_codec ((row_event_of ''UPDATE'' (Some [''user_id'' \<mapsto> VString ''7'']) None)\<lparr>ev_lsn := ''0/2''\<rparr>)"
  by (rule kafka_key_changes_without_id [where row = "[''user_id'' \<mapsto> VString ''7'']"]) (simp_all add: row_event_of_def)

end
