(* ===== verification/Go_Float.thy ===== *)
theory Go_Float
  imports Go_Prelude
begin

text \<open>
  The \<open>float64\<close> arithmetic of \<open>internal/sink/retry.go\<close>. A finite \<open>float64\<close> is an integer times a
  power of two, of which the program's values need only a fixed one: a duration is an integer, the
  jitter and its product with a duration are multiples of 2^-53. So a value is an integer numerator
  here, and rounding, which does not depend on the power of two as long as nothing underflows, is a
  function of the numerator.
\<close>

section \<open>Rounding\<close>

fun bit_length :: "nat \<Rightarrow> nat" where
  "bit_length n = (if n = 0 then 0 else Suc (bit_length (n div 2)))"

declare bit_length.simps [simp del]

text \<open>To the nearest number with a significand of 53 bits, to the even one of two that are equally near.\<close>

definition round_nat :: "nat \<Rightarrow> nat" where
  "round_nat a =
     (let p = 2 ^ (bit_length a - 53); q = a div p; r = a mod p
      in (if 2 * r > p \<or> (2 * r = p \<and> odd q) then q + 1 else q) * p)"

definition float_round :: "int \<Rightarrow> int" where
  "float_round n = sgn n * int (round_nat (nat \<bar>n\<bar>))"

text \<open>The conversion of a value of this many 2^53rds to an integer: towards zero.\<close>

definition truncate_53 :: "int \<Rightarrow> int" where
  "truncate_53 n = sgn n * (\<bar>n\<bar> div 2 ^ 53)"

section \<open>Bounds\<close>

lemma bit_length_le: "a < 2 ^ k \<Longrightarrow> bit_length a \<le> k"
proof (induction k arbitrary: a)
  case 0
  then show ?case by (simp add: bit_length.simps)
next
  case (Suc k)
  then have "bit_length (a div 2) \<le> k"
    by (intro Suc.IH) (simp add: less_mult_imp_div_less)
  then show ?case by (subst bit_length.simps) simp
qed

lemma bit_length_lower: "0 < a \<Longrightarrow> 2 ^ (bit_length a - 1) \<le> a"
proof (induction a rule: bit_length.induct)
  case (1 n)
  show ?case
  proof (cases "n div 2 = 0")
    case True
    with 1(2) show ?thesis
      by (subst bit_length.simps) (simp add: bit_length.simps)
  next
    case False
    with 1 have "2 ^ (bit_length (n div 2) - 1) \<le> n div 2" by simp
    moreover have "0 < bit_length (n div 2)"
      using False by (subst bit_length.simps) simp
    ultimately have "2 ^ bit_length (n div 2) \<le> n"
      by (cases "bit_length (n div 2)") simp_all
    with 1(2) show ?thesis
      by (subst bit_length.simps) simp
  qed
qed

lemma bit_length_upper: "a < 2 ^ bit_length a"
proof (induction a rule: bit_length.induct)
  case (1 n)
  show ?case
  proof (cases "n = 0")
    case False
    then have "n div 2 < 2 ^ bit_length (n div 2)" by (rule 1)
    then have "n < 2 * 2 ^ bit_length (n div 2)" by linarith
    with False show ?thesis by (subst bit_length.simps) simp
  qed simp
qed

lemma round_nat_small: "a < 2 ^ 53 \<Longrightarrow> round_nat a = a"
  using bit_length_le [of a 53] by (simp add: round_nat_def Let_def)

lemma float_round_small: "\<bar>n\<bar> < 2 ^ 53 \<Longrightarrow> float_round n = n"
proof -
  assume "\<bar>n\<bar> < 2 ^ 53"
  then have "nat \<bar>n\<bar> < 2 ^ 53"
    by (simp add: nat_less_iff)
  then show ?thesis
    by (simp add: float_round_def round_nat_small sgn_if)
qed

text \<open>Rounding does not cross a number that has at most 53 bits: such a number is a multiple of the
  unit of the last place of everything near it.\<close>

lemma unit_divides:
  assumes "a \<ge> 2 ^ 53" and "c \<le> 2 ^ 53" and "2 ^ 52 * 2 ^ (bit_length a - 53) < c * 2 ^ e"
  shows "(2 :: nat) ^ (bit_length a - 53) dvd c * 2 ^ e"
proof (cases "bit_length a - 53 \<le> e")
  case True
  then show ?thesis by (simp add: le_imp_power_dvd dvd_mult)
next
  case False
  then have "2 * 2 ^ e \<le> (2 :: nat) ^ (bit_length a - 53)"
    using power_increasing [of "Suc e" "bit_length a - 53" "2 :: nat"] by simp
  then have "2 ^ 52 * (2 * 2 ^ e) \<le> 2 ^ 52 * (2 :: nat) ^ (bit_length a - 53)"
    by simp
  also have "\<dots> < 2 ^ 53 * 2 ^ e"
    using assms(2,3) by (meson less_le_trans mult_le_mono1)
  finally show ?thesis by simp
qed

lemma round_nat_bounds:
  assumes "a \<ge> 2 ^ 53"
  obtains p where "p = 2 ^ (bit_length a - 53)" and "2 ^ 52 * p \<le> a div p * p" and "a div p * p \<le> a" and "a < a div p * p + p"
    and "round_nat a = a div p * p \<or> (round_nat a = a div p * p + p \<and> a \<noteq> a div p * p)"
proof -
  define p :: nat where "p = 2 ^ (bit_length a - 53)"
  have pos: "0 < p"
    by (simp add: p_def)
  have long: "53 < bit_length a"
  proof (rule ccontr)
    assume "\<not> 53 < bit_length a"
    show False
      using assms bit_length_upper [of a] power_increasing [of "bit_length a" 53 "2 :: nat"] \<open>\<not> 53 < bit_length a\<close> by simp
  qed
  then have "52 + (bit_length a - 53) = bit_length a - 1"
    by simp
  then have "2 ^ 52 * p = 2 ^ (bit_length a - 1)"
    unfolding p_def by (metis power_add)
  also have "\<dots> \<le> a"
    by (rule bit_length_lower) (use assms in simp)
  finally have "2 ^ 52 \<le> a div p"
    using pos by (simp add: less_eq_div_iff_mult_less_eq)
  then have low: "2 ^ 52 * p \<le> a div p * p" by simp
  have split: "a = a div p * p + a mod p" and mod: "a mod p < p"
    using pos by simp_all
  let ?up = "2 * (a mod p) > p \<or> (2 * (a mod p) = p \<and> odd (a div p))"
  have "round_nat a = (if ?up then a div p + 1 else a div p) * p"
    by (simp add: round_nat_def p_def Let_def)
  moreover have "a \<noteq> a div p * p" if ?up
  proof -
    have "a mod p \<noteq> 0"
      using that pos by auto
    with split show ?thesis by linarith
  qed
  ultimately have "round_nat a = a div p * p \<or> (round_nat a = a div p * p + p \<and> a \<noteq> a div p * p)"
    by (cases ?up) auto
  then show thesis
    by (intro that [OF p_def low]) (use split mod in linarith)+
qed

lemma round_nat_ge:
  assumes "c \<le> 2 ^ 53" and "c * 2 ^ e \<le> a"
  shows "c * 2 ^ e \<le> round_nat a"
proof (cases "a < 2 ^ 53")
  case True
  with assms(2) show ?thesis by (simp add: round_nat_small)
next
  case False
  then have big: "a \<ge> 2 ^ 53" by simp
  obtain p where p: "p = 2 ^ (bit_length a - 53)" "2 ^ 52 * p \<le> a div p * p"
    and r: "round_nat a = a div p * p \<or> (round_nat a = a div p * p + p \<and> a \<noteq> a div p * p)"
    using round_nat_bounds [OF big] by metis
  have "c * 2 ^ e \<le> a div p * p"
  proof (cases "2 ^ 52 * p < c * 2 ^ e")
    case True
    with unit_divides [OF big assms(1)] obtain k where k: "c * 2 ^ e = p * k"
      unfolding p(1) by (auto simp: dvd_def)
    with assms(2) have "k \<le> a div p"
      by (simp add: p(1) less_eq_div_iff_mult_less_eq mult.commute)
    with k show ?thesis by simp
  qed (use p(2) in linarith)
  with r show ?thesis by linarith
qed

lemma round_nat_le:
  assumes "c \<le> 2 ^ 53" and "a \<le> c * 2 ^ e"
  shows "round_nat a \<le> c * 2 ^ e"
proof (cases "a < 2 ^ 53")
  case True
  with assms(2) show ?thesis by (simp add: round_nat_small)
next
  case False
  then have big: "a \<ge> 2 ^ 53" by simp
  obtain p where p: "p = 2 ^ (bit_length a - 53)" "2 ^ 52 * p \<le> a div p * p" "a div p * p \<le> a"
    and r: "round_nat a = a div p * p \<or> (round_nat a = a div p * p + p \<and> a \<noteq> a div p * p)"
    using round_nat_bounds [OF big] by metis
  show ?thesis
  proof (cases "round_nat a = a div p * p")
    case True
    with p(3) assms(2) show ?thesis by linarith
  next
    case False
    with r have up: "round_nat a = a div p * p + p" "a div p * p < a"
      using p(3) by linarith+
    with p(2) assms(2) have "2 ^ 52 * p < c * 2 ^ e" by linarith
    with unit_divides [OF big assms(1)] obtain k where k: "c * 2 ^ e = p * k"
      unfolding p(1) by (auto simp: dvd_def)
    have "p * (a div p) < p * k"
      using up(2) assms(2) unfolding k by (metis less_le_trans mult.commute)
    then have "Suc (a div p) \<le> k" by simp
    then have "p * Suc (a div p) \<le> p * k" by (rule mult_le_mono2)
    with up(1) k show ?thesis by (simp add: mult.commute)
  qed
qed

lemma float_round_between:
  assumes "0 \<le> n" and "lo \<le> 2 ^ 53" and "hi \<le> 2 ^ 53" and "int (lo * 2 ^ e) \<le> n" and "n \<le> int (hi * 2 ^ e)"
  shows "int (lo * 2 ^ e) \<le> float_round n" and "float_round n \<le> int (hi * 2 ^ e)"
proof -
  have n: "float_round n = int (round_nat (nat n))"
    using assms(1) by (cases "n = 0") (simp_all add: float_round_def round_nat_small)
  have "lo * 2 ^ e \<le> nat n" and "nat n \<le> hi * 2 ^ e"
    using assms(1,4,5) by linarith+
  from round_nat_ge [OF assms(2) this(1)] round_nat_le [OF assms(3) this(2)]
  show "int (lo * 2 ^ e) \<le> float_round n" and "float_round n \<le> int (hi * 2 ^ e)"
    unfolding n by (simp_all only: of_nat_le_iff)
qed

end
