(* ===== verification/Decorators.thy ===== *)
theory Decorators
  imports Destinations Go_Float
begin

text \<open>
  The sinks that wrap a sink: \<open>internal/sink/metrics.go\<close>, \<open>retry.go\<close> and, as the failure
  callback of the latter, \<open>dlq.go\<close>. Each is modelled as a function of the sink it wraps, and
  the wrapped sink again keeps the contract of \<open>Sink\<close>.

  Durations are in nanoseconds and unbounded, where \<open>time.Since\<close> saturates at 292 years.
\<close>

section \<open>Metrics\<close>

definition note_lag :: "'v change_event \<Rightarrow> world \<Rightarrow> world" where
  "note_lag ev w =
     (if ev_timestamp ev \<noteq> zero_time then
        (let (t, w') = now w in measure_as (ReplicationLag (t - ev_timestamp ev)) w')
      else w)"

definition metrics_deliver ::
    "'v sink \<Rightarrow> string \<Rightarrow> 'v change_event \<Rightarrow> world \<Rightarrow> (world \<times> gerr option) option" where
  "metrics_deliver inner sink_name ev w =
     (let (start, w1) = now w
      in case deliver inner ev (note_lag ev w1) of
           None \<Rightarrow> None
         | Some (w2, err) \<Rightarrow>
             (let (t, w3) = now w2;
                  w4 = measure_as (DeliveryDuration sink_name (t - start)) w3;
                  status = (if err \<noteq> None then ''error'' else ''delivered'')
              in Some (measure_as (EventsTotal (ev_action ev) (ev_table ev) status) w4, err)))"

definition metrics_sink :: "'v sink \<Rightarrow> string \<Rightarrow> 'v sink" where
  "metrics_sink inner sink_name = \<lparr>deliver = metrics_deliver inner sink_name, close = close inner\<rparr>"

section \<open>Retry\<close>

text \<open>\<open>rt_convert\<close> is what converting a \<open>float64\<close> outside the range of \<open>int64\<close> gives; Go leaves
  it to the platform. \<open>rt_on_failure\<close> gets the last error, \<open>None\<close> when there was no attempt.\<close>

type_synonym 'v failure_callback = "'v change_event \<Rightarrow> gerr option \<Rightarrow> world \<Rightarrow> (world \<times> gerr option) option"

record 'v retry =
  rt_inner :: "'v sink"
  rt_max_attempts :: int
  rt_base_delay :: int
  rt_max_delay :: int
  rt_on_failure :: "'v failure_callback"

definition with_max_attempts :: "int \<Rightarrow> 'v retry \<Rightarrow> 'v retry" where
  "with_max_attempts n r = r\<lparr>rt_max_attempts := n\<rparr>"

definition with_base_delay :: "int \<Rightarrow> 'v retry \<Rightarrow> 'v retry" where
  "with_base_delay d r = r\<lparr>rt_base_delay := d\<rparr>"

definition with_max_delay :: "int \<Rightarrow> 'v retry \<Rightarrow> 'v retry" where
  "with_max_delay d r = r\<lparr>rt_max_delay := d\<rparr>"

definition with_on_failure :: "'v failure_callback \<Rightarrow> 'v retry \<Rightarrow> 'v retry" where
  "with_on_failure f r = r\<lparr>rt_on_failure := f\<rparr>"

definition millisecond :: int where
  "millisecond = 10 ^ 6"

text \<open>The default callback; \<open>%w\<close> of a nil error prints \<open>%!w(<nil>)\<close>.\<close>

definition propagate_failure :: "'v failure_callback" where
  "propagate_failure ev err w =
     (let msg = ''all retries exhausted for '' @ ev_action ev @ '' on '' @ ev_schema ev @ ''.'' @ ev_table ev @ '': ''
      in Some (w, Some (case err of Some e \<Rightarrow> Wrapped msg e | None \<Rightarrow> ErrMsg (msg @ ''%!w(<nil>)''))))"

definition new_retry_sink :: "'v sink \<Rightarrow> ('v retry \<Rightarrow> 'v retry) list \<Rightarrow> 'v retry" where
  "new_retry_sink inner opts =
     fold (\<lambda>opt r. opt r) opts
       \<lparr>rt_inner = inner, rt_max_attempts = 5, rt_base_delay = 100 * millisecond,
        rt_max_delay = 30 * (1000 * millisecond), rt_on_failure = propagate_failure\<rparr>"

text \<open>The conversion of an integral \<open>float64\<close> to a \<open>time.Duration\<close>.\<close>

definition to_duration :: "(int \<Rightarrow> int) \<Rightarrow> int \<Rightarrow> int" where
  "to_duration convert x = (if - (2 ^ 63) \<le> x \<and> x < 2 ^ 63 then x else convert x)"

text \<open>The delay of an attempt, capped. A power of two scales a \<open>float64\<close> without rounding, for an
  attempt below 971.\<close>

definition backoff :: "(int \<Rightarrow> int) \<Rightarrow> 'v retry \<Rightarrow> nat \<Rightarrow> int" where
  "backoff convert r attempt =
     (let delay = to_duration convert (float_round (rt_base_delay r) * 2 ^ attempt)
      in if delay > rt_max_delay r then rt_max_delay r else delay)"

text \<open>The jitter \<open>0.5 + rand.Float64()\<close>, in 2^53rds: \<open>Float64\<close> is a number of 53 bits divided by 2^53.\<close>

definition jitter :: "nat \<Rightarrow> int" where
  "jitter draw = float_round (2 ^ 52 + int draw)"

text \<open>What is waited after an attempt: the delay times the jitter.\<close>

definition wait_time :: "(int \<Rightarrow> int) \<Rightarrow> 'v retry \<Rightarrow> nat \<Rightarrow> nat \<Rightarrow> int" where
  "wait_time convert r attempt draw =
     to_duration convert (truncate_53 (float_round (float_round (backoff convert r attempt) * jitter draw)))"

text \<open>The loop over the attempts left. The \<open>n\<close>-th wait takes the \<open>n\<close>-th random number; whether the
  context is cancelled before the timer fires is the next answer of the world.\<close>

fun retry_loop ::
    "(int \<Rightarrow> int) \<Rightarrow> 'v retry \<Rightarrow> 'v change_event \<Rightarrow> nat list \<Rightarrow> gerr option \<Rightarrow> world
      \<Rightarrow> (world \<times> gerr option) option" where
  "retry_loop convert r ev [] last_err w =
     rt_on_failure r ev last_err (measure_as (RetriesTotal ''exhausted'') w)"
| "retry_loop convert r ev (attempt # attempts) last_err w =
     (case deliver (rt_inner r) ev w of
        None \<Rightarrow> None
      | Some (w1, None) \<Rightarrow>
          Some (if attempt > 0 then measure_as (RetriesTotal ''success'') w1 else w1, None)
      | Some (w1, Some e) \<Rightarrow>
          (let (cancelled, w2) = ctx_err (measure_as (RetriesTotal ''attempt'') w1)
           in if cancelled then Some (w2, Some (Wrapped ''context cancelled during retry: '' e))
              else
                (let (done_first, w3) = ctx_err (w2\<lparr>w_sleeps := w_sleeps w2 @
                    [wait_time convert r attempt (w_rand w2 (length (w_sleeps w2)))]\<rparr>)
                 in if done_first then
                      Some (w3, Some (Wrapped ''context cancelled waiting for retry: '' (w_ctx_error w3)))
                    else retry_loop convert r ev attempts (Some e) w3)))"

definition retry_deliver ::
    "(int \<Rightarrow> int) \<Rightarrow> 'v retry \<Rightarrow> 'v change_event \<Rightarrow> world \<Rightarrow> (world \<times> gerr option) option" where
  "retry_deliver convert r ev w = retry_loop convert r ev [0..<nat (rt_max_attempts r)] None w"

definition retry_sink :: "(int \<Rightarrow> int) \<Rightarrow> 'v retry \<Rightarrow> 'v sink" where
  "retry_sink convert r = \<lparr>deliver = retry_deliver convert r, close = close (rt_inner r)\<rparr>"

section \<open>The dead-letter queue\<close>

text \<open>\<open>NewDLQSink\<close>: what opening the file gives, and what its writes will give.\<close>

definition new_dlq :: "gerr option \<Rightarrow> (nat \<Rightarrow> gerr option) \<Rightarrow> gerr + encoder" where
  "new_dlq open_result writes =
     (case open_result of
        Some e \<Rightarrow> Inl (Wrapped ''open DLQ file: '' e)
      | None \<Rightarrow> Inr (new_encoder writes))"

text \<open>\<open>Error()\<close> of a nil error is a panic.\<close>

definition dlq_handler :: "'v json_codec \<Rightarrow> 'v failure_callback" where
  "dlq_handler J ev err w =
     (case err of
        None \<Rightarrow> None
      | Some e \<Rightarrow>
          (let (t, w1) = now w;
               entry = \<lparr>dq_event = ev, dq_error = err_text e, dq_failed_at = t\<rparr>;
               (enc, write_err) = encode (json_dlq_entry J entry) (w_dlq w1);
               w2 = w1\<lparr>w_dlq := enc\<rparr>
           in case write_err of
                Some we \<Rightarrow> Some (w2, Some (Wrapped (''DLQ write failed (original: '' @ err_text e @ ''): '') we))
              | None \<Rightarrow> Some (measure_as (DLQEventsTotal (ev_table ev)) w2, None)))"

definition dlq_close :: "world \<Rightarrow> world \<times> gerr option" where
  "dlq_close = log_close ''dlq''"

section \<open>Contracts\<close>

lemma note_lag_grows [go_state]: "grows w (note_lag ev w)"
  by (simp add: note_lag_def case_prod_beta grows_intros)

text \<open>The metrics decorator keeps the contract of whatever it wraps, with the same meaning of
  being received.\<close>

locale metrics_decorator = sink_contract S received
  for S :: "'v sink" and received +
  fixes sink_name :: string
begin

lemma metrics_deliver_inner:
  assumes "metrics_deliver S sink_name ev w = Some (w', r)"
  shows "\<exists>w1 w2. grows w w1 \<and> deliver S ev w1 = Some (w2, r) \<and> grows w2 w'"
proof -
  obtain w2 where "deliver S ev (note_lag ev (snd (now w))) = Some (w2, r)" and "grows w2 w'"
    using assms
    by (force simp: metrics_deliver_def Let_def case_prod_beta grows_intros split: option.splits)
  moreover have "grows w (note_lag ev (snd (now w)))"
    by (rule grows_trans [OF grows_ambient(1) note_lag_grows])
  ultimately show ?thesis by blast
qed

lemma metrics_deliver_returns: "metrics_deliver S sink_name ev w \<noteq> None"
  using deliver_returns [of ev "note_lag ev (snd (now w))"]
  by (simp add: metrics_deliver_def Let_def case_prod_beta split: option.split)

end

sublocale metrics_decorator < metered: sink_contract "metrics_sink S sink_name" received
proof unfold_locales
  fix ev w w' r
  show "deliver (metrics_sink S sink_name) ev w \<noteq> None"
    using metrics_deliver_returns by (simp add: metrics_sink_def)
  show "grows w w'" if "deliver (metrics_sink S sink_name) ev w = Some (w', r)"
    using that metrics_deliver_inner [of ev w w' r] deliver_grows grows_trans by (fastforce simp: metrics_sink_def)
  show "received ev w'" if "deliver (metrics_sink S sink_name) ev w = Some (w', None)"
    using that metrics_deliver_inner [of ev w w' None] deliver_nil received_mono by (auto simp: metrics_sink_def)
qed (rule received_mono)

text \<open>What a failure callback owes: it returns, and gives \<open>nil\<close> only for an event it has parked.\<close>

locale failure_contract =
  fixes on_failure :: "'v failure_callback" and parked :: "'v change_event \<Rightarrow> world \<Rightarrow> bool"
  assumes failure_returns: "on_failure ev (Some e) w \<noteq> None"
    and failure_grows: "on_failure ev err w = Some (w', r) \<Longrightarrow> grows w w'"
    and failure_nil: "on_failure ev err w = Some (w', None) \<Longrightarrow> parked ev w'"
    and parked_mono: "grows w w' \<Longrightarrow> parked ev w \<Longrightarrow> parked ev w'"

text \<open>A retry with at least one attempt: \<open>nil\<close> means that the inner sink received the event or
  the callback parked it.\<close>

locale retrying = sink_contract "rt_inner rt" received + failure_contract "rt_on_failure rt" parked
  for rt :: "'v retry" and received parked +
  fixes convert :: "int \<Rightarrow> int"
  assumes attempts_pos: "0 < rt_max_attempts rt"
begin

lemma retry_loop_returns:
  "last_err \<noteq> None \<or> as \<noteq> [] \<Longrightarrow> retry_loop convert rt ev as last_err w \<noteq> None"
proof (induction as arbitrary: last_err w)
  case Nil
  then show ?case using failure_returns by auto
next
  case (Cons a as)
  show ?case
    using deliver_returns [of ev w] Cons.IH
    by (auto simp: Let_def split: option.split prod.split)
qed

lemma retry_loop_grows: "retry_loop convert rt ev as last_err w = Some (w', r) \<Longrightarrow> grows w w'"
proof (induction as arbitrary: last_err w)
  case Nil
  then show ?case using failure_grows grows_trans [OF grows_ambient(3)] by fastforce
next
  case (Cons a as)
  obtain w1 e where d: "deliver (rt_inner rt) ev w = Some (w1, e)"
    using deliver_returns [of ev w] by auto
  note g = deliver_grows [OF d]
  show ?case
  proof (cases e)
    case None
    with Cons.prems d g show ?thesis by (auto intro: grows_intros split: if_splits)
  next
    case (Some x)
    let ?w2 = "snd (ctx_err (measure_as (RetriesTotal ''attempt'') w1))"
    let ?w3 = "snd (ctx_err (?w2\<lparr>w_sleeps := w_sleeps ?w2 @ [wait_time convert rt a (w_rand ?w2 (length (w_sleeps ?w2)))]\<rparr>))"
    have "grows w ?w2" "grows w ?w3"
      using g by (simp_all add: grows_intros)
    with Cons.prems d Some Cons.IH [of "Some x" ?w3] show ?thesis
      by (auto simp: Let_def case_prod_beta intro: grows_trans split: if_splits)
  qed
qed

lemma retry_loop_nil:
  "retry_loop convert rt ev as last_err w = Some (w', None) \<Longrightarrow> received ev w' \<or> parked ev w'"
proof (induction as arbitrary: last_err w)
  case Nil
  then show ?case using failure_nil by auto
next
  case (Cons a as)
  obtain w1 e where d: "deliver (rt_inner rt) ev w = Some (w1, e)"
    using deliver_returns [of ev w] by auto
  with Cons show ?case
    using deliver_nil [of ev w w1] received_mono [OF grows_ambient(3)]
    by (cases e) (auto simp: Let_def case_prod_beta split: if_splits)
qed

end

sublocale retrying < retried: sink_contract "retry_sink convert rt" "\<lambda>ev w. received ev w \<or> parked ev w"
proof unfold_locales
  fix ev w w' r
  have "[0..<nat (rt_max_attempts rt)] \<noteq> []"
    using attempts_pos by simp
  then show "deliver (retry_sink convert rt) ev w \<noteq> None"
    using retry_loop_returns by (simp add: retry_sink_def retry_deliver_def)
  show "grows w w'" if "deliver (retry_sink convert rt) ev w = Some (w', r)"
    using that retry_loop_grows by (simp add: retry_sink_def retry_deliver_def)
  show "received ev w' \<or> parked ev w'" if "deliver (retry_sink convert rt) ev w = Some (w', None)"
    using that retry_loop_nil by (simp add: retry_sink_def retry_deliver_def)
  show "grows w w' \<Longrightarrow> received ev w \<or> parked ev w \<Longrightarrow> received ev w' \<or> parked ev w'"
    using received_mono parked_mono by blast
qed

section \<open>The callbacks of the code\<close>

definition in_dlq :: "'v json_codec \<Rightarrow> 'v change_event \<Rightarrow> world \<Rightarrow> bool" where
  "in_dlq J ev w \<longleftrightarrow> (\<exists>err t b. json_dlq_entry J \<lparr>dq_event = ev, dq_error = err, dq_failed_at = t\<rparr> = Inr b
     \<and> b @ [CHR 0x0A] \<in> set (enc_out (w_dlq w)))"

lemma dlq_update_grows: "grows w w' \<Longrightarrow> enc_grows (w_dlq w') enc \<Longrightarrow> grows w (w'\<lparr>w_dlq := enc\<rparr>)"
  using enc_grows_trans by (auto simp: grows_def)

interpretation dlq: failure_contract "dlq_handler J" "in_dlq J" for J :: "'v json_codec"
proof unfold_locales
  fix ev :: "'v change_event" and err w w' r and e :: gerr
  show "dlq_handler J ev (Some e) w \<noteq> None"
    by (simp add: dlq_handler_def Let_def case_prod_beta split: option.split)
  show "grows w w'" if "dlq_handler J ev err w = Some (w', r)"
    using that
    by (auto simp: dlq_handler_def Let_def case_prod_beta split: option.splits
        intro!: grows_intros dlq_update_grows encode_fst_grows)
  show "in_dlq J ev w'" if "dlq_handler J ev err w = Some (w', None)"
    using that
    by (auto dest!: encode_snd_ok simp: dlq_handler_def in_dlq_def measure_as_def Let_def case_prod_beta
        split: option.splits) blast
  show "grows w w' \<Longrightarrow> in_dlq J ev w \<Longrightarrow> in_dlq J ev w'"
    unfolding in_dlq_def grows_def by (blast dest: enc_grows_out)
qed

interpretation propagate: failure_contract "propagate_failure :: 'v failure_callback" "\<lambda>ev w. False"
  by unfold_locales (auto simp: propagate_failure_def Let_def)

section \<open>The chain of the package documentation\<close>

text \<open>\<open>MetricsSink\<close> around \<open>RetrySink\<close> around \<open>WebhookSink\<close>, with the dead-letter queue.\<close>

definition webhook_retry :: "'v json_codec \<Rightarrow> webhook \<Rightarrow> 'v retry" where
  "webhook_retry J s = new_retry_sink (webhook_sink J s) [with_on_failure (dlq_handler J)]"

lemma webhook_retry [simp]:
  "rt_inner (webhook_retry J s) = webhook_sink J s" "rt_on_failure (webhook_retry J s) = dlq_handler J"
  "rt_max_attempts (webhook_retry J s) = 5" "rt_base_delay (webhook_retry J s) = 100 * millisecond"
  "rt_max_delay (webhook_retry J s) = 30 * (1000 * millisecond)"
  by (simp_all add: webhook_retry_def new_retry_sink_def with_on_failure_def)

interpretation webhook_retrying: retrying "webhook_retry J s"
    "\<lambda>ev. posted (wh_url s) (event_headers ev) (json_event J ev)" "in_dlq J" convert
  for J :: "'v json_codec" and s convert
  by (rule retrying.intro)
    (simp_all add: webhook.sink_contract_axioms dlq.failure_contract_axioms retrying_axioms_def)

interpretation webhook_chain: metrics_decorator "retry_sink convert (webhook_retry J s)"
    "\<lambda>ev w. posted (wh_url s) (event_headers ev) (json_event J ev) w \<or> in_dlq J ev w" sink_name
  for J :: "'v json_codec" and s convert sink_name
  by (rule metrics_decorator.intro) (rule webhook_retrying.retried.sink_contract_axioms)

section \<open>A retried webhook: facts\<close>

definition answered_ok :: "world \<Rightarrow> nat \<Rightarrow> bool" where
  "answered_ok w n \<longleftrightarrow> (case w_http w n of Inl e \<Rightarrow> False | Inr code \<Rightarrow> 200 \<le> code \<and> code < 300)"

definition request_for :: "webhook \<Rightarrow> 'v change_event \<Rightarrow> bytes \<Rightarrow> http_post" where
  "request_for s ev body = \<lparr>hp_url = wh_url s, hp_headers = event_headers ev, hp_body = body\<rparr>"

lemma webhook_deliver_cases:
  assumes "json_event J ev = Inr body" and "wh_url_error s = None"
  shows "\<exists>e. webhook_deliver J s ev w = Some (w\<lparr>w_posts := w_posts w @ [request_for s ev body]\<rparr>, e)
    \<and> (e = None \<longleftrightarrow> answered_ok w (length (w_posts w)))"
  using assms
  by (auto simp: webhook_deliver_def post_json_def http_do_def request_for_def answered_ok_def split: sum.split)

text \<open>One failed attempt of the loop, when the context is not cancelled.\<close>

lemma retry_loop_fail:
  assumes "rt_inner r = webhook_sink J s" and "json_event J ev = Inr body" and "wh_url_error s = None"
    and "\<forall>n. \<not> w_cancelled w n" and "\<not> answered_ok w (length (w_posts w))"
  obtains e w' where "retry_loop convert r ev (a # as) last_err w = retry_loop convert r ev as (Some e) w'"
    and "w_posts w' = w_posts w @ [request_for s ev body]" and "w_http w' = w_http w"
    and "w_cancelled w' = w_cancelled w" and "w_rand w' = w_rand w"
    and "w_sleeps w' = w_sleeps w @ [wait_time convert r a (w_rand w (length (w_sleeps w)))]"
proof -
  obtain e where d: "webhook_deliver J s ev w = Some (w\<lparr>w_posts := w_posts w @ [request_for s ev body]\<rparr>, Some e)"
    using webhook_deliver_cases [OF assms(2,3), of w] assms(5) by auto
  show thesis
    using assms(1,4) d
    by (intro that [of e "w\<lparr>w_posts := w_posts w @ [request_for s ev body],
          w_metrics := w_metrics w @ [RetriesTotal ''attempt''],
          w_sleeps := w_sleeps w @ [wait_time convert r a (w_rand w (length (w_sleeps w)))], w_polls := Suc (Suc (w_polls w))\<rparr>"])
      (simp_all add: webhook_sink_def ctx_err_def measure_as_def Let_def)
qed

lemma retry_loop_webhook:
  assumes "rt_inner r = webhook_sink J s" and "json_event J ev = Inr body" and "wh_url_error s = None"
    and "\<forall>n. \<not> w_cancelled w n" and "\<forall>i < k. \<not> answered_ok w (length (w_posts w) + i)"
  shows "\<exists>w' last'. retry_loop convert r ev ([a..<a + k] @ as) last_err w = retry_loop convert r ev as last' w'
    \<and> w_posts w' = w_posts w @ replicate k (request_for s ev body)
    \<and> w_http w' = w_http w \<and> w_cancelled w' = w_cancelled w
    \<and> w_rand w' = w_rand w
    \<and> w_sleeps w' = w_sleeps w @ map (\<lambda>i. wait_time convert r (a + i) (w_rand w (length (w_sleeps w) + i))) [0..<k]
    \<and> (k = 0 \<longrightarrow> last' = last_err) \<and> (0 < k \<longrightarrow> last' \<noteq> None)"
  using assms(4,5)
proof (induction k arbitrary: a w last_err)
  case 0
  then show ?case by auto
next
  case (Suc k)
  have "\<not> answered_ok w (length (w_posts w))"
    using Suc.prems(2) by force
  from retry_loop_fail [OF assms(1-3) Suc.prems(1) this, of convert a "[Suc a..<Suc a + k] @ as" last_err]
  obtain e w1 where step: "retry_loop convert r ev (a # [Suc a..<Suc a + k] @ as) last_err w
      = retry_loop convert r ev ([Suc a..<Suc a + k] @ as) (Some e) w1"
    and w1: "w_posts w1 = w_posts w @ [request_for s ev body]" "w_http w1 = w_http w"
      "w_cancelled w1 = w_cancelled w" "w_rand w1 = w_rand w"
      "w_sleeps w1 = w_sleeps w @ [wait_time convert r a (w_rand w (length (w_sleeps w)))]"
    by blast
  have fails: "\<forall>i < k. \<not> answered_ok w1 (length (w_posts w1) + i)"
    using Suc.prems(2) w1 by (auto simp: answered_ok_def)
  have "\<forall>n. \<not> w_cancelled w1 n"
    using Suc.prems(1) w1 by simp
  from Suc.IH [OF this fails, of "Suc a" "Some e"] obtain w2 last2
    where run: "retry_loop convert r ev ([Suc a..<Suc a + k] @ as) (Some e) w1 = retry_loop convert r ev as last2 w2"
      and w2: "w_posts w2 = w_posts w1 @ replicate k (request_for s ev body)" "w_http w2 = w_http w1"
        "w_cancelled w2 = w_cancelled w1" "w_rand w2 = w_rand w1"
        "w_sleeps w2 = w_sleeps w1 @ map (\<lambda>i. wait_time convert r (Suc a + i) (w_rand w1 (length (w_sleeps w1) + i))) [0..<k]"
        "k = 0 \<longrightarrow> last2 = Some e" "0 < k \<longrightarrow> last2 \<noteq> None"
    by blast
  have upt: "[a..<a + Suc k] = a # [Suc a..<Suc a + k]"
    by (simp add: upt_conv_Cons del: upt_Suc)
  have "last2 \<noteq> None"
    using w2(6,7) by (cases k) simp_all
  moreover have "w_sleeps w2 = w_sleeps w @ map (\<lambda>i. wait_time convert r (a + i) (w_rand w (length (w_sleeps w) + i))) [0..<Suc k]"
    using w1(4,5) w2(5) by (simp add: map_upt_Suc del: upt_Suc)
  ultimately show ?case
    using run step w1(1-4) w2(1-4) unfolding upt
    by (intro exI [of _ w2] exI [of _ last2]) (simp del: upt_Suc retry_loop.simps)
qed

section \<open>The waits: facts\<close>

lemma jitter_between: "draw < 2 ^ 53 \<Longrightarrow> 2 ^ 52 \<le> jitter draw \<and> jitter draw \<le> 3 * 2 ^ 52"
  using float_round_between [of "2 ^ 52 + int draw" 1 3 52] by (simp add: jitter_def)

lemma wait_time_bounds:
  assumes "0 \<le> backoff convert r i \<and> 3 * backoff convert r i \<le> 2 ^ 53 \<and> draw < 2 ^ 53"
  shows "backoff convert r i div 2 \<le> wait_time convert r i draw \<and> wait_time convert r i draw \<le> 3 * backoff convert r i div 2"
proof -
  define d where "d = backoff convert r i"
  define n where "n = nat d"
  have d: "d = int n"
    using assms by (simp add: d_def n_def)
  then have "int (3 * n) \<le> int (2 ^ 53)"
    using assms by (simp add: d_def [symmetric])
  then have n: "3 * n \<le> 2 ^ 53"
    by (simp only: of_nat_le_iff)
  have exact: "float_round d = d"
    by (rule float_round_small) (use d n in simp)
  have product: "d * 2 ^ 52 \<le> d * jitter draw" "d * jitter draw \<le> d * (3 * 2 ^ 52)"
    using jitter_between [of draw] assms by (simp_all add: d_def mult_left_mono)
  let ?x = "float_round (d * jitter draw)"
  have x: "int (n * 2 ^ 52) \<le> ?x" "?x \<le> int (3 * n * 2 ^ 52)"
    using product d n by (intro float_round_between(1,2) [where lo = n and hi = "3 * n" and e = 52]; simp)+
  from x(1) have "0 \<le> ?x" by (rule order_trans [rotated]) simp
  then have t: "truncate_53 ?x = ?x div 2 ^ 53"
    by (cases "?x = 0") (simp_all add: truncate_53_def)
  have "d div 2 \<le> ?x div 2 ^ 53" and "?x div 2 ^ 53 \<le> 3 * d div 2"
    using x d by simp_all
  moreover have "truncate_53 ?x < 2 ^ 63" "- (2 ^ 63) \<le> truncate_53 ?x"
  proof -
    have "3 * d \<le> 2 ^ 53"
      using d n by simp
    then have "3 * d div 2 < 2 ^ 63" by simp
    with \<open>?x div 2 ^ 53 \<le> 3 * d div 2\<close> show "truncate_53 ?x < 2 ^ 63"
      unfolding t by (rule le_less_trans)
    have "0 \<le> ?x div 2 ^ 53"
      using \<open>0 \<le> ?x\<close> by simp
    then show "- (2 ^ 63) \<le> truncate_53 ?x"
      unfolding t by (rule order_trans [rotated]) simp
  qed
  ultimately show ?thesis
    by (simp add: wait_time_def to_duration_def exact t flip: d_def)
qed

section \<open>Properties\<close>

text \<open>
  C23. A retried webhook sends the same request again after every answer that is not a 2xx and
  waits in between: the \<open>i\<close>-th wait is the backoff of the attempt times the jitter of the next random
  number, in the arithmetic of \<open>float64\<close>, which is between half and one and a half of the backoff,
  for backoffs up to 34 days. It stops at the first 2xx and gives \<open>nil\<close>; when all attempts fail it
  has sent exactly as many requests as attempts, has waited once more after the last one, and gives
  what the failure callback makes of the last error.
\<close>

theorem retry_webhook_schedule:
  assumes "rt_inner r = webhook_sink J s" and "json_event J ev = Inr body" and "wh_url_error s = None"
    and "\<forall>n. \<not> w_cancelled w n"
  shows "(\<forall>k < nat (rt_max_attempts r). (\<forall>i < k. \<not> answered_ok w (length (w_posts w) + i))
      \<and> answered_ok w (length (w_posts w) + k) \<longrightarrow>
      (\<exists>w'. retry_deliver convert r ev w = Some (w', None)
        \<and> w_posts w' = w_posts w @ replicate (Suc k) (request_for s ev body)
        \<and> w_sleeps w' = w_sleeps w @ map (\<lambda>i. wait_time convert r i (w_rand w (length (w_sleeps w) + i))) [0..<k]))
    \<and> ((\<forall>i < nat (rt_max_attempts r). \<not> answered_ok w (length (w_posts w) + i)) \<and> 0 < rt_max_attempts r \<longrightarrow>
      (\<exists>w' e. retry_deliver convert r ev w = rt_on_failure r ev (Some e) w'
        \<and> w_posts w' = w_posts w @ replicate (nat (rt_max_attempts r)) (request_for s ev body)
        \<and> w_sleeps w' = w_sleeps w @ map (\<lambda>i. wait_time convert r i (w_rand w (length (w_sleeps w) + i)))
            [0..<nat (rt_max_attempts r)]))
    \<and> (\<forall>i draw. 0 \<le> backoff convert r i \<and> 3 * backoff convert r i \<le> 2 ^ 53 \<and> draw < 2 ^ 53 \<longrightarrow>
      backoff convert r i div 2 \<le> wait_time convert r i draw \<and> wait_time convert r i draw \<le> 3 * backoff convert r i div 2)"
proof (intro conjI allI impI)
  fix k
  assume k: "k < nat (rt_max_attempts r)"
    and ok: "(\<forall>i < k. \<not> answered_ok w (length (w_posts w) + i)) \<and> answered_ok w (length (w_posts w) + k)"
  let ?as = "[Suc k..<nat (rt_max_attempts r)]"
  have split: "[0..<nat (rt_max_attempts r)] = [0..<0 + k] @ k # ?as"
    using k upt_add_eq_append [of 0 k "nat (rt_max_attempts r) - k"] upt_conv_Cons [of k "nat (rt_max_attempts r)"]
    by (simp del: upt_Suc)
  obtain w1 last1 where run: "retry_loop convert r ev ([0..<0 + k] @ k # ?as) None w = retry_loop convert r ev (k # ?as) last1 w1"
    and w1: "w_posts w1 = w_posts w @ replicate k (request_for s ev body)" "w_http w1 = w_http w"
      "w_sleeps w1 = w_sleeps w @ map (\<lambda>i. wait_time convert r (0 + i) (w_rand w (length (w_sleeps w) + i))) [0..<k]"
    using retry_loop_webhook [OF assms ok [THEN conjunct1], of convert 0 "k # ?as" None] by blast
  have "answered_ok w1 (length (w_posts w1))"
    using ok w1 by (simp add: answered_ok_def)
  then have "webhook_deliver J s ev w1 = Some (w1\<lparr>w_posts := w_posts w1 @ [request_for s ev body]\<rparr>, None)"
    using webhook_deliver_cases [OF assms(2,3), of w1] by auto
  then show "\<exists>w'. retry_deliver convert r ev w = Some (w', None)
      \<and> w_posts w' = w_posts w @ replicate (Suc k) (request_for s ev body)
      \<and> w_sleeps w' = w_sleeps w @ map (\<lambda>i. wait_time convert r i (w_rand w (length (w_sleeps w) + i))) [0..<k]"
    unfolding retry_deliver_def split run using w1 assms(1)
    by (simp add: webhook_sink_def measure_as_def replicate_append_same)
next
  assume fail: "(\<forall>i < nat (rt_max_attempts r). \<not> answered_ok w (length (w_posts w) + i)) \<and> 0 < rt_max_attempts r"
  from retry_loop_webhook [OF assms fail [THEN conjunct1], of convert 0 "[]" None] fail
  obtain w1 e where run: "retry_loop convert r ev [0..<nat (rt_max_attempts r)] None w
        = rt_on_failure r ev (Some e) (measure_as (RetriesTotal ''exhausted'') w1)"
    and w1: "w_posts w1 = w_posts w @ replicate (nat (rt_max_attempts r)) (request_for s ev body)"
      "w_sleeps w1 = w_sleeps w @ map (\<lambda>i. wait_time convert r i (w_rand w (length (w_sleeps w) + i)))
        [0..<nat (rt_max_attempts r)]"
    by auto
  then show "\<exists>w' e. retry_deliver convert r ev w = rt_on_failure r ev (Some e) w'
      \<and> w_posts w' = w_posts w @ replicate (nat (rt_max_attempts r)) (request_for s ev body)
      \<and> w_sleeps w' = w_sleeps w @ map (\<lambda>i. wait_time convert r i (w_rand w (length (w_sleeps w) + i)))
          [0..<nat (rt_max_attempts r)]"
    unfolding retry_deliver_def
    by (intro exI [of _ "measure_as (RetriesTotal ''exhausted'') w1"] exI [of _ e]) (simp add: measure_as_def)
next
  fix i draw :: nat
  assume "0 \<le> backoff convert r i \<and> 3 * backoff convert r i \<le> 2 ^ 53 \<and> draw < 2 ^ 53"
  then show "backoff convert r i div 2 \<le> wait_time convert r i draw"
    and "wait_time convert r i draw \<le> 3 * backoff convert r i div 2"
    using wait_time_bounds [of convert r i draw] by blast+
qed

text \<open>
  In the chain of the package documentation, metrics around retry around a webhook with the
  dead-letter queue, \<open>Deliver\<close> gives \<open>nil\<close> only when a POST of the event was answered by a 2xx
  or its entry is in the queue's file.
\<close>

theorem webhook_chain_at_least_once:
  assumes "deliver (metrics_sink (retry_sink convert (webhook_retry J s)) sink_name) ev w = Some (w', None)"
  shows "posted (wh_url s) (event_headers ev) (json_event J ev) w' \<or> in_dlq J ev w'"
  using assms by (rule webhook_chain.metered.deliver_nil)

text \<open>
  The delay of an attempt is the base delay times a power of two, capped, as long as the
  product is in the range of an \<open>int64\<close> of nanoseconds: never negative and never more than the
  cap, and it does not shrink from one attempt to the next.
\<close>

theorem backoff_exact:
  assumes "0 \<le> rt_base_delay r" and "0 \<le> rt_max_delay r" and "rt_base_delay r * 2 ^ Suc n < 2 ^ 63"
    and "rt_base_delay r < 2 ^ 53"
  shows "backoff convert r n = min (rt_base_delay r * 2 ^ n) (rt_max_delay r)
    \<and> 0 \<le> backoff convert r n \<and> backoff convert r n \<le> backoff convert r (Suc n)
    \<and> backoff convert r (Suc n) \<le> rt_max_delay r"
proof -
  have pos: "0 \<le> rt_base_delay r * 2 ^ k" for k :: nat
    using assms(1) by simp
  have exact: "backoff convert r k = min (rt_base_delay r * 2 ^ k) (rt_max_delay r)"
    if "rt_base_delay r * 2 ^ k < 2 ^ 63" for k :: nat
  proof -
    have "- (2 ^ 63) \<le> rt_base_delay r * 2 ^ k"
      by (rule order_trans [OF _ pos]) simp
    with that show ?thesis
      using assms(1,4) by (simp add: backoff_def to_duration_def float_round_small Let_def min_def)
  qed
  have "rt_base_delay r * 2 ^ Suc n = 2 * (rt_base_delay r * 2 ^ n)"
    by simp
  with assms(3) pos [of n] have small: "rt_base_delay r * 2 ^ n < 2 ^ 63"
    and mono: "rt_base_delay r * 2 ^ n \<le> rt_base_delay r * 2 ^ Suc n"
    by linarith+
  show ?thesis
    unfolding exact [OF small] exact [OF assms(3)] using mono pos [of n] assms(2) by (simp add: min_def)
qed

text \<open>
  Past that range the cap does not protect: where the conversion gives a number that is not
  positive, as it does on amd64, the wait is over at once, and the retries hammer the sink.
\<close>

theorem backoff_overflow:
  assumes "2 ^ 63 \<le> rt_base_delay r * 2 ^ n" and "convert (rt_base_delay r * 2 ^ n) \<le> 0" and "0 \<le> rt_max_delay r"
    and "0 \<le> rt_base_delay r" and "rt_base_delay r < 2 ^ 53"
  shows "backoff convert r n \<le> 0"
  using assms by (auto simp: backoff_def to_duration_def float_round_small Let_def)

text \<open>
  The cap is not one on the wait: the jitter is applied after it. At the default settings, whose cap is
  30 seconds, the tenth attempt is followed by a wait of 37.5 seconds when the random number is 0.75.
\<close>

theorem wait_exceeds_cap:
  "wait_time convert (new_retry_sink inner []) 9 (3 * 2 ^ 51) = 37500 * millisecond"
proof -
  have "jitter (3 * 2 ^ 51) = 5 * 2 ^ 51"
    using float_round_between [of "5 * 2 ^ 51" 5 5 51] by (simp add: jitter_def)
  moreover have "backoff convert (new_retry_sink inner []) 9 = 30000 * millisecond"
    by (simp add: backoff_def new_retry_sink_def to_duration_def float_round_small millisecond_def)
  moreover have "float_round (30000 * millisecond * (5 * 2 ^ 51)) = 30000 * millisecond * (5 * 2 ^ 51)"
    using float_round_between [of "30000 * millisecond * (5 * 2 ^ 51)" 150000000000 150000000000 51]
    by (simp add: millisecond_def)
  ultimately show ?thesis
    by (simp add: wait_time_def float_round_small truncate_53_def to_duration_def millisecond_def)
qed

text \<open>
  With no attempts configured the sink is never called: the event goes to the failure
  callback with a nil error, which the default callback prints and the dead-letter queue's
  handler panics on.
\<close>

theorem retry_without_attempts:
  assumes "rt_max_attempts r \<le> 0"
  shows "retry_deliver convert r ev w = rt_on_failure r ev None (measure_as (RetriesTotal ''exhausted'') w)
    \<and> (rt_on_failure r = dlq_handler J \<longrightarrow> retry_deliver convert r ev w = None)"
  using assms by (simp add: retry_deliver_def dlq_handler_def)

text \<open>
  When a write of the dead-letter queue fails, the error given is the one of the write, the
  delivery error being only part of its text; and from then on the queue takes nothing more:
  every later event fails with the same cause and leaves no line.
\<close>

theorem dlq_write_error_sticks:
  assumes "dlq_handler J ev (Some e) w = Some (w1, Some x)"
    and "json_dlq_entry J \<lparr>dq_event = ev, dq_error = err_text e, dq_failed_at = fst (now w)\<rparr> = Inr b"
    and "w_dlq w2 = w_dlq w1"
  shows "\<exists>we. x = Wrapped (''DLQ write failed (original: '' @ err_text e @ ''): '') we
    \<and> (\<exists>w3. dlq_handler J ev' (Some e') w2
        = Some (w3, Some (Wrapped (''DLQ write failed (original: '' @ err_text e' @ ''): '') we))
      \<and> enc_out (w_dlq w3) = enc_out (w_dlq w1))"
proof -
  obtain we where x: "x = Wrapped (''DLQ write failed (original: '' @ err_text e @ ''): '') we"
    and err: "enc_err (w_dlq w1) = Some we"
    using assms(1,2)
    by (auto simp: dlq_handler_def encode_def now_def Let_def case_prod_beta split: option.splits)
  have "w_dlq (snd (now w2)) = w_dlq w1"
    using assms(3) by (simp add: now_def)
  then have "encode json (w_dlq (snd (now w2))) = (w_dlq w1, Some we)" for json
    using err by (simp add: encode_def)
  with x show ?thesis
    by (simp add: dlq_handler_def Let_def case_prod_beta)
qed

text \<open>
  The metrics decorator calls the inner sink once and gives its result; after whatever the
  inner sink records come one observation of the delivery's duration and one count of the event,
  as delivered exactly when the result is \<open>nil\<close>.
\<close>

theorem metrics_deliver_counts:
  assumes "deliver (metrics_sink inner sink_name) ev w = Some (w', r)"
  shows "\<exists>w1 w2 d. deliver inner ev w1 = Some (w2, r)
    \<and> w_metrics w' = w_metrics w2 @ [DeliveryDuration sink_name d,
        EventsTotal (ev_action ev) (ev_table ev) (if r = None then ''delivered'' else ''error'')]
    \<and> w_posts w1 = w_posts w \<and> w_records w1 = w_records w \<and> w_posts w' = w_posts w2 \<and> w_records w' = w_records w2"
proof -
  obtain w2 where "deliver inner ev (note_lag ev (snd (now w))) = Some (w2, r)"
    and "w' = measure_as (EventsTotal (ev_action ev) (ev_table ev) (if r = None then ''delivered'' else ''error''))
      (measure_as (DeliveryDuration sink_name (fst (now w2) - fst (now w))) (snd (now w2)))"
    using assms
    by (cases r) (auto simp: metrics_sink_def metrics_deliver_def Let_def case_prod_beta split: option.splits)
  moreover have "w_posts (note_lag ev (snd (now w))) = w_posts w" "w_records (note_lag ev (snd (now w))) = w_records w"
    by (simp_all add: note_lag_def now_def measure_as_def)
  ultimately show ?thesis
    by (intro exI [of _ "note_lag ev (snd (now w))"] exI [of _ w2] exI [of _ "fst (now w2) - fst (now w)"])
      (simp add: measure_as_def now_def)
qed

section \<open>Concrete instances of the properties\<close>

theorem retry_webhook_schedule_witness:
  "\<exists>w'. retry_deliver id (webhook_retry sample_codec sample_hook) (row_event_of ''INSERT'' None None) sample_world
      = Some (w', None) \<and> length (w_posts w') = 2 \<and> w_sleeps w' = [100 * millisecond]"
proof -
  let ?r = "webhook_retry sample_codec sample_hook" and ?ev = "row_event_of ''INSERT'' None None"
  obtain body where body: "json_event sample_codec ?ev = Inr body"
    using plain_event_json by blast
  have hyps: "rt_inner ?r = webhook_sink sample_codec sample_hook" "wh_url_error sample_hook = None"
      "\<forall>n. \<not> w_cancelled sample_world n" "1 < nat (rt_max_attempts ?r)"
    by (simp_all add: sample_hook_def sample_world_def)
  have ok: "(\<forall>i < 1. \<not> answered_ok sample_world (length (w_posts sample_world) + i))
      \<and> answered_ok sample_world (length (w_posts sample_world) + 1)"
    by (simp add: answered_ok_def sample_world_def)
  have "jitter (2 ^ 52) = 2 ^ 53"
    using float_round_between [of "2 ^ 53" 1 1 53] by (simp add: jitter_def)
  moreover have "backoff id ?r 0 = 100 * millisecond"
    by (simp add: backoff_def to_duration_def float_round_small millisecond_def)
  moreover have "float_round (100 * millisecond * 2 ^ 53) = 100 * millisecond * 2 ^ 53"
    using float_round_between [of "100 * millisecond * 2 ^ 53" 100000000 100000000 53] by (simp add: millisecond_def)
  ultimately have "wait_time id ?r 0 (2 ^ 52) = 100 * millisecond"
    by (simp add: wait_time_def float_round_small truncate_53_def to_duration_def millisecond_def)
  then have first: "map (\<lambda>i. wait_time id ?r i (w_rand sample_world (length (w_sleeps sample_world) + i))) [0..<1]
      = [100 * millisecond]"
    by (simp add: sample_world_def)
  note schedule = retry_webhook_schedule [OF hyps(1) body hyps(2,3), of id, THEN conjunct1, rule_format, OF hyps(4) ok]
  from schedule
  show ?thesis
    unfolding first by (auto simp: sample_world_def)
qed

lemma webhook_chain_sample:
  assumes "json_event sample_codec ev = Inr body" and "ev_timestamp ev \<noteq> zero_time"
  shows "\<exists>w'. deliver (metrics_sink (retry_sink id (webhook_retry sample_codec sample_hook)) ''webhook'')
      ev sample_world = Some (w', None)"
proof -
  have five: "[0..<5] = [0, 1, 2, 3, 4]"
    by (simp add: upt_rec)
  show ?thesis
    by (simp add: metrics_sink_def metrics_deliver_def retry_sink_def retry_deliver_def five webhook_sink_def
        webhook_deliver_def assms post_json_def http_do_def sample_hook_def now_def note_lag_def ctx_err_def
        measure_as_def sample_world_def Let_def)
qed

theorem webhook_chain_at_least_once_witness:
  "\<exists>w'. deliver (metrics_sink (retry_sink id (webhook_retry sample_codec sample_hook)) ''webhook'')
        (row_event_of ''INSERT'' None None) sample_world = Some (w', None)
     \<and> (posted ''http://h'' (event_headers (row_event_of ''INSERT'' None None))
          (json_event sample_codec (row_event_of ''INSERT'' None None)) w'
        \<or> in_dlq sample_codec (row_event_of ''INSERT'' None None) w')"
proof -
  let ?ev = "row_event_of ''INSERT'' None None"
  have "ev_timestamp ?ev \<noteq> zero_time"
    by (simp add: row_event_of_def zero_time_def)
  then obtain w' where w': "deliver (metrics_sink (retry_sink id (webhook_retry sample_codec sample_hook)) ''webhook'')
      ?ev sample_world = Some (w', None)"
    using webhook_chain_sample plain_event_json by blast
  from webhook_chain_at_least_once [OF this] w' show ?thesis
    by (auto simp: sample_hook_def)
qed

theorem backoff_exact_witness:
  "backoff id (new_retry_sink (stdout_sink sample_codec) []) 4 = 1600 * millisecond"
  using backoff_exact [of "new_retry_sink (stdout_sink sample_codec) []" 4 id]
  by (simp add: new_retry_sink_def millisecond_def)

text \<open>The conversion of amd64 gives the least \<open>int64\<close>; 38 attempts of the default delay reach it.\<close>

theorem backoff_overflow_witness:
  "backoff (\<lambda>x. - (2 ^ 63)) (new_retry_sink (stdout_sink sample_codec) [with_max_attempts 40]) 37 \<le> 0"
  by (rule backoff_overflow) (simp_all add: new_retry_sink_def with_max_attempts_def millisecond_def)

theorem retry_without_attempts_witness:
  "retry_deliver id (new_retry_sink (webhook_sink sample_codec sample_hook)
      [with_max_attempts 0, with_on_failure (dlq_handler sample_codec)]) (row_event_of ''INSERT'' None None) sample_world = None"
  by (rule retry_without_attempts [THEN conjunct2, rule_format])
    (simp_all add: new_retry_sink_def with_max_attempts_def with_on_failure_def)

theorem metrics_deliver_counts_witness:
  "\<exists>w'. deliver (metrics_sink (webhook_sink sample_codec sample_hook\<lparr>deliver := (\<lambda>ev w. Some (w, None))\<rparr>) ''webhook'')
        (row_event_of ''INSERT'' None None) sample_world = Some (w', None)
     \<and> last (w_metrics w') = EventsTotal ''INSERT'' ''users'' ''delivered''"
proof -
  let ?S = "webhook_sink sample_codec sample_hook\<lparr>deliver := (\<lambda>ev w. Some (w, None))\<rparr>"
  let ?ev = "row_event_of ''INSERT'' None None"
  obtain w' where w': "deliver (metrics_sink ?S ''webhook'') ?ev sample_world = Some (w', None)"
    by (simp add: metrics_sink_def metrics_deliver_def Let_def case_prod_beta)
  from metrics_deliver_counts [OF this] w' show ?thesis
    by (auto simp: row_event_of_def)
qed

text \<open>The file's first write fails, and no later one would.\<close>

theorem dlq_write_error_sticks_witness:
  "\<exists>w1 x we w3. dlq_handler sample_codec (row_event_of ''INSERT'' None None) (Some EOF)
        (sample_world\<lparr>w_dlq := fine_encoder\<lparr>enc_write := (\<lambda>n. if n = 0 then Some (ErrMsg ''full'') else None)\<rparr>\<rparr>)
      = Some (w1, Some x)
     \<and> dlq_handler sample_codec (row_event_of ''DELETE'' None None) (Some EOF) w1
      = Some (w3, Some (Wrapped ''DLQ write failed (original: EOF): '' we)) \<and> enc_out (w_dlq w3) = enc_out (w_dlq w1)"
proof -
  let ?w = "sample_world\<lparr>w_dlq := fine_encoder\<lparr>enc_write := (\<lambda>n. if n = 0 then Some (ErrMsg ''full'') else None)\<rparr>\<rparr>"
  let ?ev = "row_event_of ''INSERT'' None None"
  obtain body where body: "json_event sample_codec ?ev = Inr body"
    using plain_event_json by blast
  have jc: "jc_time sample_codec t = Inr (json_string ''now'')" for t
    by (simp add: sample_codec_def)
  obtain b where b: "json_dlq_entry sample_codec \<lparr>dq_event = ?ev, dq_error = err_text EOF, dq_failed_at = fst (now ?w)\<rparr> = Inr b"
    using body by (simp add: json_dlq_entry_def bind_ok_def jc)
  obtain w1 x where fail: "dlq_handler sample_codec ?ev (Some EOF) ?w = Some (w1, Some x)"
    using b by (simp add: dlq_handler_def encode_def Let_def case_prod_beta now_def sample_world_def fine_encoder_def)
  from dlq_write_error_sticks [OF fail b refl, of "row_event_of ''DELETE'' None None" EOF] fail show ?thesis
    by auto
qed

end
