(* ===== verification/Wal_Acks.thy ===== *)
theory Wal_Acks
  imports Wal_Stream
begin

text \<open>
  What the message loop of \<open>internal/cdc/stream.go\<close> tells the server: which positions its
  acknowledgments name, the reply to a keepalive, and the deferred acknowledgment of a loop that
  ends with an error.
\<close>

section \<open>Acknowledgments: facts\<close>

text \<open>The end of the last piece of WAL received in the given rounds.\<close>

definition last_end :: "'v lib \<Rightarrow> tick list \<Rightarrow> lsn" where
  "last_end L tks = (case rev (List.map_filter (tick_xlog L) tks) of [] \<Rightarrow> 0 | x # _ \<Rightarrow> end_position x)"

lemma last_end_snoc:
  "last_end L (tks @ [tk]) = (case tick_xlog L tk of None \<Rightarrow> last_end L tks | Some x \<Rightarrow> end_position x)"
  by (simp add: last_end_def List.map_filter_def split: option.split)

lemma run_loop_append:
  "run_loop L handle (tks @ tks') c =
     (case run_loop L handle tks c of
        (c', Continue) \<Rightarrow> run_loop L handle tks' c' | r \<Rightarrow> r)"
  by (induction tks arbitrary: c) (auto split: prod.split outcome.split)

lemma periodic_ack_effect:
  assumes "periodic_ack tk lp = (lp', e)"
  shows "lp_received lp' = lp_received lp" "set (lp_sent lp') \<subseteq> insert (lp_received lp + 1) (set (lp_sent lp))"
  using assms by (auto simp: periodic_ack_def send_ack_def Let_def split: if_splits option.splits)

lemma copy_data_effect:
  assumes "copy_data L handle reply data st h lp = ((st', h', lp'), r)"
  shows "set (lp_sent lp') \<subseteq> insert (lp_received lp + 1) (set (lp_sent lp))"
    and "r = Continue \<Longrightarrow> tk_recv tk = RecvCopy data \<Longrightarrow>
      lp_received lp' = (case tick_xlog L tk of None \<Rightarrow> lp_received lp | Some x \<Rightarrow> end_position x)"
  using assms
  by (auto simp: copy_data_def send_ack_def tick_xlog_def end_position_def Let_def
      split: list.splits if_splits sum.splits option.splits)

lemma loop_step_effect:
  assumes "loop_step L handle tk (st, h, lp) = ((st', h', lp'), r)"
  shows "set (lp_sent lp') \<subseteq> insert (lp_received lp + 1) (set (lp_sent lp))"
    and "r = Continue \<Longrightarrow>
      lp_received lp' = (case tick_xlog L tk of None \<Rightarrow> lp_received lp | Some x \<Rightarrow> end_position x)"
proof -
  obtain lp1 e where p: "periodic_ack tk lp = (lp1, e)"
    by fastforce
  note eff = periodic_ack_effect [OF p]
  show "set (lp_sent lp') \<subseteq> insert (lp_received lp + 1) (set (lp_sent lp))"
    using assms p eff copy_data_effect(1) [of L handle "tk_reply tk" _ st h lp1 st' h' lp' r]
    by (auto simp: loop_step_def split: if_splits option.splits received.splits)
  show "lp_received lp' = (case tick_xlog L tk of None \<Rightarrow> lp_received lp | Some x \<Rightarrow> end_position x)"
    if "r = Continue"
  proof (cases "\<exists>data. tk_recv tk = RecvCopy data")
    case True
    then obtain data where data: "tk_recv tk = RecvCopy data" ..
    with assms p that have "copy_data L handle (tk_reply tk) data st h lp1 = ((st', h', lp'), r)"
      by (auto simp: loop_step_def split: if_splits option.splits)
    from copy_data_effect(2) [OF this that data] eff show ?thesis
      by (simp split: option.split)
  next
    case False
    then have "tick_xlog L tk = None"
      by (auto simp: tick_xlog_def split: received.split)
    with False assms p eff that show ?thesis
      by (auto simp: loop_step_def split: if_splits option.splits received.splits)
  qed
qed

lemma run_loop_snocD:
  assumes "run_loop L handle (tks @ [tk]) c = (c2, r)"
  shows "(\<exists>c1. run_loop L handle tks c = (c1, Continue) \<and> loop_step L handle tk c1 = (c2, r))
    \<or> (run_loop L handle tks c = (c2, r) \<and> r \<noteq> Continue)"
  using assms
  by (cases "run_loop L handle tks c"; cases "snd (run_loop L handle tks c)")
    (auto simp: run_loop_append split: prod.splits outcome.splits)

lemma run_loop_received:
  "run_loop L handle tks (st, h, start_loop now) = ((st', h', lp'), Continue) \<Longrightarrow> lp_received lp' = last_end L tks"
proof (induction tks arbitrary: st' h' lp' rule: rev_induct)
  case Nil
  then show ?case by (auto simp: start_loop_def last_end_def List.map_filter_def)
next
  case (snoc tk tks)
  from run_loop_snocD [OF snoc.prems] obtain st1 h1 lp1
    where "run_loop L handle tks (st, h, start_loop now) = ((st1, h1, lp1), Continue)"
      and step: "loop_step L handle tk (st1, h1, lp1) = ((st', h', lp'), Continue)"
    by auto
  with snoc.IH loop_step_effect(2) [OF step] show ?case
    by (simp add: last_end_snoc split: option.split)
qed

lemma failed_message_ack:
  assumes "run_loop L handle tks (st, h, start_loop now) = ((st1, h1, lp1), Continue)"
    and "\<not> tk_cancelled tk" and "tk_ack tk = None" and "tick_xlog L tk = Some x"
    and "lp_acked lp1 < end_position x" and "lp_received lp1 < end_position x"
    and "process_message L handle x st1 h1 = Some (st2, h2, Some e)"
  shows "\<exists>lp2. message_loop L handle now (tks @ tk # rest) st h
      = ((st2, h2, lp2), Return (Some (Wrapped ''process message: '' e)))
    \<and> last (lp_sent lp2) = end_position x + 1"
proof -
  obtain lp where lp: "periodic_ack tk lp1 = (lp, None)"
    using assms(3) periodic_ack_ok [of tk lp1] by (cases "periodic_ack tk lp1") auto
  then have acked: "lp_acked lp < end_position x"
    using assms(5,6) by (auto simp: periodic_ack_def send_ack_def Let_def split: if_splits option.splits)
  let ?lp = "lp\<lparr>lp_received := end_position x\<rparr>"
  have "loop_step L handle tk (st1, h1, lp1)
      = ((st2, h2, ?lp), Return (Some (Wrapped ''process message: '' e)))"
    using assms lp
    by (auto simp: loop_step_def tick_xlog_def copy_data_def end_position_def Let_def
        split: received.splits list.splits if_splits sum.splits)
  then have "message_loop L handle now (tks @ tk # rest) st h
      = ((st2, h2, final_ack ?lp), Return (Some (Wrapped ''process message: '' e)))"
    by (simp add: message_loop_def run_loop_append assms(1))
  then show ?thesis
    using acked by (simp add: final_ack_def send_ack_def)
qed

lemma keepalive_ack:
  assumes "run_loop L handle tks (st, h, start_loop start) = ((st1, h1, lp1), Continue)"
    and "quiet_tick L tk" and "tk_recv tk = RecvCopy (CHR ''k'' # body)" and "lib_keepalive L body = Inr True"
  shows "\<exists>lp'. run_loop L handle (tks @ [tk]) (st, h, start_loop start) = ((st1, h1, lp'), Continue)
    \<and> lp_sent lp' \<noteq> [] \<and> last (lp_sent lp') = last_end L tks + 1"
proof -
  obtain lp2 where lp2: "periodic_ack tk lp1 = (lp2, None)"
    using assms(2) periodic_ack_ok [of tk lp1] by (cases "periodic_ack tk lp1") (auto simp: quiet_tick_def)
  have "lp_received lp2 = last_end L tks"
    using periodic_ack_effect(1) [OF lp2] run_loop_received [OF assms(1)] by simp
  moreover have "loop_step L handle tk (st1, h1, lp1) = ((st1, h1, send_ack (lp_received lp2) lp2), Continue)"
    using assms(2-4) lp2 by (auto simp: loop_step_def copy_data_def quiet_tick_def)
  ultimately show ?thesis
    by (simp add: run_loop_append assms(1) send_ack_def)
qed

lemma run_loop_acks:
  assumes "run_loop L handle tks (st, h, start_loop now) = ((st', h', lp'), r)" and "p \<in> set (lp_sent lp')"
  shows "\<exists>k \<le> length tks. p = last_end L (take k tks) + 1
    \<and> snd (run_loop L handle (take k tks) (st, h, start_loop now)) = Continue"
  using assms
proof (induction tks arbitrary: st' h' lp' r rule: rev_induct)
  case Nil
  then show ?case by (auto simp: start_loop_def)
next
  case (snoc tk tks)
  let ?run = "\<lambda>tks. run_loop L handle tks (st, h, start_loop now)"
  have old: "\<exists>k \<le> length (tks @ [tk]). p = last_end L (take k (tks @ [tk])) + 1
      \<and> snd (?run (take k (tks @ [tk]))) = Continue"
    if "\<exists>k \<le> length tks. p = last_end L (take k tks) + 1 \<and> snd (?run (take k tks)) = Continue"
    using that by (metis (no_types, lifting) append_Nil2 diff_is_0_eq le_SucI length_append_singleton
        take_append take_eq_Nil)
  from run_loop_snocD [OF snoc.prems(1)] show ?case
  proof (elim disjE exE conjE)
    fix c1
    assume run: "?run tks = (c1, Continue)" and step: "loop_step L handle tk c1 = ((st', h', lp'), r)"
    obtain st1 h1 lp1 where c1: "c1 = (st1, h1, lp1)" by (cases c1)
    from loop_step_effect(1) [OF step [unfolded c1]] snoc.prems(2)
    consider "p \<in> set (lp_sent lp1)" | "p = lp_received lp1 + 1" by auto
    then show ?thesis
    proof cases
      case 1
      from snoc.IH [OF run [unfolded c1] 1] show ?thesis by (rule old)
    next
      case 2
      with run_loop_received [OF run [unfolded c1]] run show ?thesis
        by (intro old exI [of _ "length tks"]) simp
    qed
  next
    assume "?run tks = ((st', h', lp'), r)"
    from snoc.IH [OF this snoc.prems(2)] show ?thesis by (rule old)
  qed
qed

section \<open>Properties\<close>

text \<open>
  C15. A message whose processing fails (the handler refuses its event, its relation was not
  announced, or it cannot be parsed) ends the loop with that error, and the deferred
  acknowledgment then tells the server that everything up to the end of this very message is
  flushed, so the server does not send it again.
\<close>

theorem failed_message_is_acknowledged:
  assumes "run_loop L handle tks (st, h, start_loop now) = ((st1, h1, lp1), Continue)"
    and "\<not> tk_cancelled tk" and "tk_ack tk = None" and "tick_xlog L tk = Some x"
    and "lp_acked lp1 < end_position x" and "lp_received lp1 < end_position x"
    and "process_message L handle x st1 h1 = Some (st2, h2, Some e)"
  shows "\<exists>lp2. message_loop L handle now (tks @ tk # rest) st h
      = ((st2, h2, lp2), Return (Some (Wrapped ''process message: '' e)))
    \<and> last (lp_sent lp2) = end_position x + 1"
  using assms by (rule failed_message_ack)

section \<open>Concrete instances of the properties\<close>

text \<open>The handler below refuses everything: the event at position 67 is lost.\<close>

theorem failed_message_is_acknowledged_witness:
  "\<exists>c. message_loop sample_lib (\<lambda>h ev. (h, Some (ErrMsg ''down''))) 0
      [sample_tick 0 ''wAR'', sample_tick 1 ''wCI''] sample_stream ()
    = (c, Return (Some (Wrapped ''process message: '' (Wrapped ''handler INSERT: '' (ErrMsg ''down'')))))
    \<and> last (lp_sent (snd (snd c))) = 69"
proof -
  let ?handle = "\<lambda>h ev. (h, Some (ErrMsg ''down''))"
  let ?st = "sample_stream\<lparr>st_relations := [7 \<mapsto> sample_relation]\<rparr>"
  let ?lp = "\<lparr>lp_received = 66, lp_acked = 0, lp_next = ack_interval, lp_sent = []\<rparr>"
  let ?x = "\<lparr>xl_start = 67, xl_data = ''I''\<rparr>"
  have run: "run_loop sample_lib ?handle [sample_tick 0 ''wAR''] (sample_stream, (), start_loop 0)
      = ((?st, (), ?lp), Continue)"
    by (simp add: loop_defs sample_defs)
  have x: "tick_xlog sample_lib (sample_tick 1 ''wCI'') = Some ?x"
    by (simp add: tick_xlog_def sample_defs)
  have fail: "process_message sample_lib ?handle ?x ?st ()
      = Some (?st, (), Some (Wrapped ''handler INSERT: '' (ErrMsg ''down'')))"
    by (simp add: loop_defs sample_defs)
  show ?thesis
    using failed_message_is_acknowledged [OF run _ _ x _ _ fail, of "[]"]
    by (auto simp: end_position_def sample_tick_def)
qed

end
