(* ===== verification/Pipeline.thy ===== *)
theory Pipeline
  imports Snapshot Decorators Wal_Acks
begin

text \<open>
  The components together: the stream and the snapshot with a chain of sinks as their handler,
  and the batching sink in front of a webhook.
\<close>

section \<open>A stream or a snapshot in front of a sink\<close>

lemma deliver_all_handle_all:
  "fst (deliver_all handle evs h) = fst (handle_all handle evs h)
   \<and> (snd (deliver_all handle evs h) = None \<longleftrightarrow> snd (handle_all handle evs h) = None)"
  by (induction evs arbitrary: h) (auto split: prod.split option.split)

context sink_contract
begin

lemma handle_all_received:
  "handle_all (handler_of S) evs w = (w', r) \<Longrightarrow>
     grows w w' \<and> (r = None \<longrightarrow> (\<forall>ev \<in> set evs. received ev w'))"
proof (induction evs arbitrary: w)
  case Nil
  then show ?case by simp
next
  case (Cons ev evs)
  obtain w1 e where one: "handler_of S w ev = (w1, e)" by fastforce
  then have g: "grows w w1"
    using handler_grows [of w ev] by simp
  show ?case
  proof (cases e)
    case None
    have rest: "grows w1 w' \<and> (r = None \<longrightarrow> (\<forall>ev \<in> set evs. received ev w'))"
      by (rule Cons.IH) (use Cons.prems one None in simp)
    moreover have "received ev w1"
      using handler_nil one None by simp
    ultimately show ?thesis
      using g grows_trans received_mono by auto
  next
    case (Some x)
    with Cons.prems one g show ?thesis by auto
  qed
qed

lemma deliver_all_received:
  assumes "deliver_all (handler_of S) evs w = (w', r)"
  shows "grows w w' \<and> (r = None \<longrightarrow> (\<forall>ev \<in> set evs. received ev w'))"
  using assms handle_all_received [of evs w w'] deliver_all_handle_all [of "handler_of S" evs w]
  by (cases "handle_all (handler_of S) evs w") auto

end

section \<open>Lines on standard output\<close>

abbreviation NL :: char where
  "NL \<equiv> CHR 0x0A"

lemma stdout_deliver_line:
  assumes "handler_of (stdout_sink J) w ev = (w1, None)"
  shows "\<exists>m. json_event J ev = Inr m \<and> enc_out (w_stdout w1) = enc_out (w_stdout w) @ [m @ [NL]]"
  using assms
  by (auto simp: handler_of_def stdout_sink_def stdout_write_def encode_def split: option.splits sum.splits)

lemma stdout_handle_all_lines:
  "handle_all (handler_of (stdout_sink J)) evs w = (w', None) \<Longrightarrow>
     \<exists>ms. list_all2 (\<lambda>ev m. json_event J ev = Inr m) evs ms
       \<and> enc_out (w_stdout w') = enc_out (w_stdout w) @ map (\<lambda>m. m @ [NL]) ms"
proof (induction evs arbitrary: w)
  case Nil
  then show ?case by auto
next
  case (Cons ev evs)
  obtain w1 where one: "handler_of (stdout_sink J) w ev = (w1, None)"
      and rest: "handle_all (handler_of (stdout_sink J)) evs w1 = (w', None)"
    using Cons.prems by (auto split: prod.splits option.splits)
  from stdout_deliver_line [OF one] obtain m where m: "json_event J ev = Inr m"
      "enc_out (w_stdout w1) = enc_out (w_stdout w) @ [m @ [NL]]" by blast
  from Cons.IH [OF rest] obtain ms where "list_all2 (\<lambda>ev m. json_event J ev = Inr m) evs ms"
      "enc_out (w_stdout w') = enc_out (w_stdout w1) @ map (\<lambda>m. m @ [NL]) ms" by blast
  with m show ?case
    by (intro exI [of _ "m # ms"]) simp
qed

lemma concat_lines: "concat (map (\<lambda>m. m @ [c]) ms) = join [c] (ms @ [[]])"
proof (induction ms)
  case (Cons m ms)
  then show ?case by (cases "ms @ [[]]") auto
qed simp

section \<open>Properties\<close>

text \<open>
  C7. With metrics, retry and a webhook as the handler, and the dead-letter queue behind it, a
  stream that is still running has every event of the WAL it received that passes the filter
  answered by a 2xx or in the queue's file.
\<close>

theorem stream_webhook_at_least_once:
  assumes "\<forall>tk \<in> set tks. quiet_tick L tk \<and> (\<forall>(l, m) \<in> set (tick_messages L tk). message_ok m)"
    and "wal_events L (stream_context (new_stream conn slot pub flt))
      (concat (map (tick_messages L) tks)) = Some (wc, evs)"
    and "message_loop L (handler_of (metrics_sink (retry_sink convert (webhook_retry J s)) sink_name)) start tks
      (new_stream conn slot pub flt) w = ((st', w', lp'), Continue)"
    and "ev \<in> set evs" and "matches (lib_lower L) flt ev"
  shows "posted (wh_url s) (event_headers ev) (json_event J ev) w' \<or> in_dlq J ev w'"
proof -
  let ?handle = "handler_of (metrics_sink (retry_sink convert (webhook_retry J s)) sink_name)"
  have flt: "st_filter (new_stream conn slot pub flt) = flt"
    and ok: "relations_ok (st_relations (new_stream conn slot pub flt))"
    by (simp_all add: new_stream_def relations_ok_def)
  obtain w1 r where d: "deliver_all ?handle (filter (matches (lib_lower L) flt) evs) w = (w1, r)"
    by fastforce
  have "r = None \<and> w1 = w'"
    using run_loop_wal [OF assms(1,2) ok, of ?handle w "start_loop start"] d assms(3)
    by (cases r) (auto simp: message_loop_def flt split: prod.splits)
  with webhook_chain.metered.deliver_all_received [OF d] assms(4,5) show ?thesis
    by auto
qed

text \<open>
  C36. A snapshot into Kafka that returns a position has every row of every table acknowledged by
  Kafka, as an event on the topic of its table.
\<close>

theorem snapshot_kafka_complete:
  assumes "answers_ok sv 0 (sn_tables sn) cols rows"
    and "snapshot_run (handler_of (kafka_sink J prefix)) sv sn w = (cmds, w', ms, Inr l)"
    and "ev \<in> set (planned_events sv cols rows 0 (sn_tables sn))"
  shows "produced J prefix ev w'"
proof -
  obtain cmds' t ms' where loop: "table_loop (handler_of (kafka_sink J prefix)) sv 0 (sn_tables sn) w =
    (case handle_all (handler_of (kafka_sink J prefix)) (planned_events sv cols rows 0 (sn_tables sn)) w of
       (h', None) \<Rightarrow> (cmds', h', ms', None)
     | (h', Some e) \<Rightarrow> (cmds', h', ms', Some (Wrapped (''snapshot table '' @ t @ '': '') (Wrapped ''handler: '' e))))"
    using table_loop_ok [OF assms(1), of "handler_of (kafka_sink J prefix)" w] by blast
  obtain w1 r where h: "handle_all (handler_of (kafka_sink J prefix)) (planned_events sv cols rows 0 (sn_tables sn)) w = (w1, r)"
    by fastforce
  have "sn_tables sn \<noteq> []"
    using assms(3) by auto
  then have "r = None \<and> w1 = w'"
    using assms(2) loop h by (cases r) (auto simp: snapshot_run_def Let_def split: option.splits sum.splits)
  with kafka.handle_all_received [OF h] assms(3) show ?thesis
    by auto
qed

text \<open>
  C29. What a list of delivered events leaves on standard output is read back line by line: split
  at the newlines it is the JSON text of each event, in order, and nothing after the last newline.
\<close>

theorem stdout_lines_roundtrip:
  assumes "codec_printable J" and "enc_out (w_stdout w) = []"
    and "handle_all (handler_of (stdout_sink J)) evs w = (w', None)"
  shows "\<exists>ms. list_all2 (\<lambda>ev m. json_event J ev = Inr m) evs ms
    \<and> split_on NL (concat (enc_out (w_stdout w'))) = ms @ [[]]"
proof -
  obtain ms where ms: "list_all2 (\<lambda>ev m. json_event J ev = Inr m) evs ms"
      and out: "enc_out (w_stdout w') = map (\<lambda>m. m @ [NL]) ms"
    using stdout_handle_all_lines [OF assms(3)] assms(2) by auto
  have "NL \<notin> set m" if "m \<in> set ms" for m
    using list_all2_in_set [OF ms that] json_event_printable [OF assms(1)] newline_not_printable by blast
  then have "split_on NL (concat (enc_out (w_stdout w'))) = ms @ [[]]"
    unfolding out concat_lines by (intro split_on_join) auto
  with ms show ?thesis by blast
qed

text \<open>
  When \<open>Deliver\<close> of a batching sink in front of a webhook gives \<open>nil\<close>, the event is in the
  buffer, or a POST of the full batch it completes was answered by a 2xx.
\<close>

theorem batch_webhook_nil:
  assumes "batch_deliver (webhook_batch_sink J s) ctx ev b w = ((b', w'), None)"
  shows "ev \<in> set (bt_buffer b')
    \<or> posted (wh_url s) (batch_headers (bt_buffer b @ [ev])) (json_events J (bt_buffer b @ [ev])) w'"
  using assms by (rule webhook_batch.batch_deliver_nil)

text \<open>
  \<open>Close\<close> of a batching sink in front of a webhook always gives \<open>nil\<close> and empties the buffer,
  also when the final POST is refused: the events it held are gone and nobody is told.
\<close>

theorem close_hides_failed_flush:
  assumes "bt_buffer b \<noteq> []" and "json_events J (bt_buffer b) = Inr body" and "wh_url_error s = None"
    and "\<not> answered_ok w (length (w_posts w))"
  shows "\<exists>b' w'. batch_close (webhook_batch_sink J s) b w = ((b', w'), None) \<and> bt_buffer b' = []
    \<and> length (w_posts w') = Suc (length (w_posts w)) \<and> \<not> answered_ok w' (length (w_posts w))"
proof -
  obtain b1 where c: "close_locked b = (b1, bt_buffer b)" and "bt_buffer b1 = []"
    using close_locked_eq [of b] by (metis surj_pair)
  with assms show ?thesis
    by (auto simp: batch_close_def webhook_batch_sink_def webhook_deliver_batch_def post_json_def http_do_def
        log_close_def flush_metrics_def measure_as_def answered_ok_def Let_def split: sum.splits)
qed

section \<open>Concrete instances of the properties\<close>

lemma sample_event_json: "\<exists>body. json_event sample_codec sample_event = Inr body"
  by (simp add: json_event_def json_omitempty_def json_row_def json_value_def bind_ok_def sample_codec_def sample_event_def)

lemma sample_chain_run:
  "\<exists>st' w' lp'. run_loop sample_lib (handler_of (metrics_sink (retry_sink id (webhook_retry sample_codec sample_hook)) ''webhook''))
      sample_ticks (sample_stream, sample_world, start_loop 0) = ((st', w', lp'), Continue)"
proof -
  let ?handle = "handler_of (metrics_sink (retry_sink id (webhook_retry sample_codec sample_hook)) ''webhook'')"
  have flt: "matches (lib_lower sample_lib) (new_filter id id [] []) sample_event"
    by (simp add: matches_iff keys_def new_filter_def)
  have ok: "relations_ok (st_relations sample_stream)" and st_flt: "st_filter sample_stream = new_filter id id [] []"
    by (simp_all add: sample_stream_def new_stream_def relations_ok_def)
  have "ev_timestamp sample_event \<noteq> zero_time"
    by (simp add: sample_event_def zero_time_def)
  then obtain w1 where "?handle sample_world sample_event = (w1, None)"
    using webhook_chain_sample sample_event_json by (fastforce simp: handler_of_def)
  then show ?thesis
    using run_loop_wal [OF sample_quiet sample_wal ok, of ?handle sample_world "start_loop 0"] flt
    by (auto simp: st_flt)
qed

theorem stream_webhook_at_least_once_witness:
  "\<exists>w'. posted ''http://h'' (event_headers sample_event) (json_event sample_codec sample_event) w'
     \<or> in_dlq sample_codec sample_event w'"
proof -
  let ?handle = "handler_of (metrics_sink (retry_sink id (webhook_retry sample_codec sample_hook)) ''webhook'')"
  have flt: "matches (lib_lower sample_lib) (new_filter id id [] []) sample_event"
    by (simp add: matches_iff keys_def new_filter_def)
  obtain st' w1 lp' where run: "message_loop sample_lib ?handle 0 sample_ticks sample_stream sample_world
      = ((st', w1, lp'), Continue)"
    using sample_chain_run by (auto simp: message_loop_def)
  have "posted (wh_url sample_hook) (event_headers sample_event) (json_event sample_codec sample_event) w1
      \<or> in_dlq sample_codec sample_event w1"
    by (rule stream_webhook_at_least_once [OF sample_quiet sample_wal [unfolded sample_stream_def]
          run [unfolded sample_stream_def] _ flt]) simp
  then show ?thesis
    by (auto simp: sample_hook_def)
qed

theorem snapshot_kafka_complete_witness:
  "\<exists>w'. produced sample_codec ''pgcdc'' (snapshot_event ''users'' 5 [''id'' \<mapsto> VCodec 1]) w'"
proof -
  let ?sn = "\<lparr>sn_conn_str = ''c'', sn_tables = [''users'']\<rparr>"
  have ok: "answers_ok sample_snap 0 (sn_tables ?sn) (\<lambda>i. [''id'']) (\<lambda>i. [[VCodec 1], [VCodec 2]])"
    by (simp add: answers_ok_def sample_snap_def)
  have json: "\<exists>body. json_event sample_codec (snapshot_event ''users'' 5 [''id'' \<mapsto> VCodec n]) = Inr body" for n
    by (simp add: json_event_def json_omitempty_def json_row_def json_value_def bind_ok_def sample_codec_def
        snapshot_event_def)
  obtain b1 b2 where "json_event sample_codec (snapshot_event ''users'' 5 [''id'' \<mapsto> VCodec 1]) = Inr b1"
      "json_event sample_codec (snapshot_event ''users'' 5 [''id'' \<mapsto> VCodec 2]) = Inr b2"
    using json [of 1] json [of 2] by blast
  then have "\<exists>cmds w' ms. snapshot_run (handler_of (kafka_sink sample_codec ''pgcdc'')) sample_snap ?sn sample_world
      = (cmds, w', ms, Inr ''0/10'')"
    by (simp add: snapshot_run_def snapshot_table_def scan_columns_ok [where acc = "[]", simplified] sample_snap_def
        handler_of_def kafka_sink_def kafka_deliver_def produce_sync_def sample_world_def Let_def)
  then obtain cmds w' ms where run: "snapshot_run (handler_of (kafka_sink sample_codec ''pgcdc'')) sample_snap ?sn sample_world
      = (cmds, w', ms, Inr ''0/10'')" by blast
  have "produced sample_codec ''pgcdc'' (snapshot_event ''users'' 5 [''id'' \<mapsto> VCodec 1]) w'"
    by (rule snapshot_kafka_complete [OF ok run]) (simp add: table_events_def sample_snap_def)
  then show ?thesis by blast
qed

theorem stdout_lines_roundtrip_witness:
  "\<exists>w' m1 m2. handle_all (handler_of (stdout_sink sample_codec)) [row_event_of ''INSERT'' None None,
        row_event_of ''DELETE'' None None] sample_world = (w', None)
     \<and> split_on NL (concat (enc_out (w_stdout w'))) = [m1, m2, []]"
proof -
  let ?evs = "[row_event_of ''INSERT'' None None, row_event_of ''DELETE'' None None]"
  obtain b1 b2 where "json_event sample_codec (row_event_of ''INSERT'' None None) = Inr b1"
      "json_event sample_codec (row_event_of ''DELETE'' None None) = Inr b2"
    using plain_event_json by blast
  then have "\<exists>w'. handle_all (handler_of (stdout_sink sample_codec)) ?evs sample_world = (w', None)"
    by (simp add: handler_of_def stdout_sink_def stdout_write_def encode_def sample_world_def fine_encoder_def)
  then obtain w' where run: "handle_all (handler_of (stdout_sink sample_codec)) ?evs sample_world = (w', None)" by blast
  have "codec_printable sample_codec" and "enc_out (w_stdout sample_world) = []"
    by (simp_all add: codec_printable_def sample_codec_def sample_world_def fine_encoder_def)
  from stdout_lines_roundtrip [OF this run] run show ?thesis
    by (auto simp: list_all2_Cons1)
qed

lemma plain_events_json: "\<exists>body. json_events sample_codec [row_event_of action None None] = Inr body"
  using plain_event_json [of action] by (auto simp: json_events_def bind_ok_def)

theorem batch_webhook_nil_witness:
  "\<exists>b' w'. batch_deliver (webhook_batch_sink sample_codec sample_hook) 0 (row_event_of ''INSERT'' None None)
        (empty_batcher 2) sample_world = ((b', w'), None) \<and> row_event_of ''INSERT'' None None \<in> set (bt_buffer b')"
proof -
  let ?ev = "row_event_of ''INSERT'' None None"
  obtain b' w' where d: "batch_deliver (webhook_batch_sink sample_codec sample_hook) 0 ?ev (empty_batcher 2) sample_world
      = ((b', w'), None)" and w': "w' = sample_world"
    by (simp add: batch_deliver_def empty_batcher_def batcher_defs)
  have "\<not> posted url headers json sample_world" for url headers json
    by (simp add: posted_def sample_world_def)
  with batch_webhook_nil [OF d] d w' show ?thesis
    by auto
qed

theorem close_hides_failed_flush_witness:
  "\<exists>b' w'. batch_close (webhook_batch_sink sample_codec sample_hook)
        ((empty_batcher 2)\<lparr>bt_buffer := [row_event_of ''INSERT'' None None]\<rparr>) sample_world = ((b', w'), None)
     \<and> \<not> answered_ok w' 0"
proof -
  let ?b = "(empty_batcher 2)\<lparr>bt_buffer := [row_event_of ''INSERT'' None None]\<rparr>"
  obtain body where body: "json_events sample_codec (bt_buffer ?b) = Inr body"
    using plain_events_json by (metis batcher.select_convs(2) batcher.surjective batcher.update_convs(2))
  have "bt_buffer ?b \<noteq> []" "wh_url_error sample_hook = None" "\<not> answered_ok sample_world (length (w_posts sample_world))"
    by (simp_all add: sample_hook_def sample_world_def answered_ok_def)
  from close_hides_failed_flush [OF this(1) body this(2,3)] show ?thesis
    by (auto simp: sample_world_def)
qed

section \<open>A stream in front of a batching sink\<close>

text \<open>A batching sink as the handler of a stream, as long as no timer interleaves.\<close>

definition batch_handler :: "'v batch_deliverer \<Rightarrow> nat \<Rightarrow> ('v change_event batcher \<times> world, 'v) handler" where
  "batch_handler D ctx = (\<lambda>(b, w) ev. batch_deliver D ctx ev b w)"

lemma batch_deliver_buffers:
  assumes "int (length (bt_buffer b) + 1) < bt_max_size b"
  shows "\<exists>b'. batch_deliver D ctx ev b w = ((b', w), None)
    \<and> bt_buffer b' = bt_buffer b @ [ev] \<and> bt_max_size b' = bt_max_size b"
  using assms by (auto simp: batch_deliver_def batcher_defs)

lemma batch_handler_buffers:
  "int (length (bt_buffer b) + length evs) < bt_max_size b \<Longrightarrow>
    \<exists>b'. deliver_all (batch_handler D ctx) evs (b, w) = ((b', w), None) \<and> bt_buffer b' = bt_buffer b @ evs"
proof (induction evs arbitrary: b)
  case Nil
  then show ?case by simp
next
  case (Cons ev evs)
  obtain b1 where one: "batch_deliver D ctx ev b w = ((b1, w), None)"
    and b1: "bt_buffer b1 = bt_buffer b @ [ev]" "bt_max_size b1 = bt_max_size b"
    using batch_deliver_buffers [of b D ctx ev w] Cons.prems by auto
  from Cons.IH [of b1] Cons.prems one b1 show ?case
    by (auto simp: batch_handler_def)
qed

text \<open>
  C18. With a batching sink the stream confirms to the server what is only in memory: events that
  do not fill a batch are buffered, nothing has left the process, and the next keepalive that asks
  for a reply acknowledges all of the WAL received. A crash before the flush loses them, against
  the contract of \<open>Sink\<close>.
\<close>

theorem buffered_events_acknowledged:
  assumes "\<forall>tk \<in> set tks. quiet_tick L tk \<and> (\<forall>(l, m) \<in> set (tick_messages L tk). message_ok m)"
    and "wal_events L (stream_context st) (concat (map (tick_messages L) tks)) = Some (wc, evs)"
    and "relations_ok (st_relations st)"
    and "pending = filter (matches (lib_lower L) (st_filter st)) evs"
    and "bt_buffer b = []" and "int (length pending) < bt_max_size b"
    and "quiet_tick L tk" and "tk_recv tk = RecvCopy (CHR ''k'' # body)" and "lib_keepalive L body = Inr True"
  shows "\<exists>st' b' lp'. run_loop L (batch_handler D ctx) (tks @ [tk]) (st, (b, w), start_loop start)
      = ((st', (b', w), lp'), Continue)
    \<and> bt_buffer b' = pending \<and> last (lp_sent lp') = last_end L tks + 1"
proof -
  obtain b1 where b1: "deliver_all (batch_handler D ctx) pending (b, w) = ((b1, w), None)"
    and buf: "bt_buffer b1 = pending"
    using batch_handler_buffers [of b pending D ctx w] assms(5,6) by auto
  obtain st1 lp1 where run: "run_loop L (batch_handler D ctx) tks (st, (b, w), start_loop start)
      = ((st1, (b1, w), lp1), Continue)"
    using run_loop_wal [OF assms(1-3), of "batch_handler D ctx" "(b, w)" "start_loop start"] b1
    by (auto simp: assms(4))
  from keepalive_ack [OF run assms(7-9)] buf show ?thesis
    by auto
qed

theorem buffered_events_acknowledged_witness:
  "\<exists>st' b' lp'. run_loop sample_lib (batch_handler (webhook_batch_sink sample_codec sample_hook) 0)
      (sample_ticks @ [sample_tick 5 ''k'']) (sample_stream, (empty_batcher 2, sample_world), start_loop 0)
      = ((st', (b', sample_world), lp'), Continue)
    \<and> bt_buffer b' = [sample_event] \<and> last (lp_sent lp') = 70"
proof -
  have rel: "relations_ok (st_relations sample_stream)"
    by (simp add: relations_ok_def sample_stream_def new_stream_def)
  have pending: "[sample_event] = filter (matches (lib_lower sample_lib) (st_filter sample_stream)) [sample_event]"
    by (simp add: matches_iff keys_def sample_stream_def new_stream_def new_filter_def)
  have b: "bt_buffer (empty_batcher 2) = []" "int (length [sample_event]) < bt_max_size (empty_batcher 2)"
    by (simp_all add: empty_batcher_def)
  have k: "quiet_tick sample_lib (sample_tick 5 ''k'')" "tk_recv (sample_tick 5 ''k'') = RecvCopy (CHR ''k'' # [])"
      "lib_keepalive sample_lib [] = Inr True"
    by (simp_all add: quiet_tick_def sample_tick_def sample_lib_def)
  have "last_end sample_lib sample_ticks = 69"
    by (simp add: last_end_def sample_ticks_def List.map_filter_def tick_xlog_def sample_tick_def sample_lib_def
        end_position_def)
  with buffered_events_acknowledged [OF sample_quiet sample_wal rel pending b k,
      of "webhook_batch_sink sample_codec sample_hook" 0 sample_world 0]
  show ?thesis by simp
qed

end
