(* ===== verification/Restarts.thy ===== *)
theory Restarts
  imports Pipeline
begin

text \<open>
  The pipeline over its restarts. A process is killed, shut down or loses its connection, and a new
  one is started on the same slot: its stream begins with no relations, at what the slot has
  confirmed. What is proved is that nothing confirmed is missing at the destination, as long as no
  run ended with a message that it could not process; and, at the end, two ways in which the code
  does confirm what it should not.

  The server is not part of the repository. What is assumed of it is \<open>source_ok\<close> and
  \<open>resends\<close>: transactions are sent whole and in the order of their commits, each time with the
  same events, and a restart skips a transaction only if its commit is below what is confirmed.
  \<open>texts_fit\<close> is a condition on the log for the transaction a statement is about.
\<close>

section \<open>The source\<close>

text \<open>\<open>so_messages k i\<close> is how transaction \<open>i\<close> is sent when streaming was started at transaction
  \<open>k\<close>: relations are announced anew in every session, so this differs between sessions.\<close>

record 'v source =
  so_count :: nat
  so_commit :: "nat \<Rightarrow> lsn"
  so_messages :: "nat \<Rightarrow> nat \<Rightarrow> xlog_data list"
  so_events :: "nat \<Rightarrow> 'v change_event list"

definition fresh_context :: wal_context where
  "fresh_context = \<lparr>wc_relations = Map.empty, wc_xid = 0, wc_time = zero_time\<rparr>"

definition xlog_messages :: "'v lib \<Rightarrow> xlog_data list \<Rightarrow> (lsn \<times> pg_message) list" where
  "xlog_messages L xs =
     concat (map (\<lambda>x. case lib_parse L (xl_data x) of Inl e \<Rightarrow> [] | Inr m \<Rightarrow> [(xl_start x, m)]) xs)"

definition session_of :: "'v source \<Rightarrow> nat \<Rightarrow> nat \<Rightarrow> xlog_data list" where
  "session_of so k m = concat (map (so_messages so k) [k..<m])"

definition source_ok :: "'v lib \<Rightarrow> 'v source \<Rightarrow> bool" where
  "source_ok L so \<longleftrightarrow> (\<forall>m \<le> so_count so. \<forall>k \<le> m. \<exists>wc.
     wal_events L fresh_context (xlog_messages L (session_of so k m)) = Some (wc, concat (map (so_events so) [k..<m])))"

text \<open>The code takes the length of a message's text for a distance in the log. That is harmless for a
  transaction as long as no message that is sent before its last (its COMMIT) seems to end at the
  commit or after it. This is a condition on the log, not something the server promises.\<close>

definition texts_fit :: "'v source \<Rightarrow> nat \<Rightarrow> bool" where
  "texts_fit so t \<longleftrightarrow> 0 < so_commit so t \<and> (\<forall>k \<le> t.
     \<exists>ms x. session_of so k (Suc t) = ms @ [x] \<and> (\<forall>y \<in> set ms. end_position y < so_commit so t))"

text \<open>The rounds of a run against this source, from the confirmed position on: nothing goes wrong
  on the connection, and what has arrived is a first part of a session that skips only what is
  confirmed.\<close>

definition received_xlogs :: "'v lib \<Rightarrow> tick list \<Rightarrow> xlog_data list" where
  "received_xlogs L tks = List.map_filter (tick_xlog L) tks"

definition resends :: "'v lib \<Rightarrow> 'v source \<Rightarrow> lsn \<Rightarrow> tick list \<Rightarrow> bool" where
  "resends L so c tks \<longleftrightarrow>
     (\<forall>tk \<in> set tks. quiet_tick L tk \<and> (\<forall>(l, m) \<in> set (tick_messages L tk). message_ok m))
     \<and> (\<exists>k \<le> so_count so. (\<forall>t < k. so_commit so t < c)
          \<and> (\<exists>rest. session_of so k (so_count so) = received_xlogs L tks @ rest))"

section \<open>Lives\<close>

text \<open>What survives a process: the requests and records made, and what is in the files. A new
  process has a new encoder, and time passes.\<close>

definition later :: "world \<Rightarrow> world \<Rightarrow> bool" where
  "later w w' \<longleftrightarrow> w_http w' = w_http w \<and> w_kafka w' = w_kafka w
     \<and> (\<exists>ps. w_posts w' = w_posts w @ ps) \<and> (\<exists>rs. w_records w' = w_records w @ rs)
     \<and> (\<exists>xs. enc_out (w_stdout w') = enc_out (w_stdout w) @ xs)
     \<and> (\<exists>xs. enc_out (w_dlq w') = enc_out (w_dlq w) @ xs)"

lemma grows_later: "grows w w' \<Longrightarrow> later w w'"
  by (auto simp: grows_def enc_grows_def later_def)

lemma later_refl [simp]: "later w w"
  by (simp add: later_def)

lemma posted_later: "later w w' \<Longrightarrow> posted url headers json w \<Longrightarrow> posted url headers json w'"
  unfolding posted_def later_def by (fastforce simp: nth_append)

lemma produced_later: "later w w' \<Longrightarrow> produced J prefix ev w \<Longrightarrow> produced J prefix ev w'"
  unfolding produced_def later_def by (fastforce simp: nth_append)

lemma in_dlq_later: "later w w' \<Longrightarrow> in_dlq J ev w \<Longrightarrow> in_dlq J ev w'"
  unfolding in_dlq_def later_def by (metis Un_iff set_append)

text \<open>One process after the other. A run ends when the process is killed (the loop is still
  running), or with a round that brings no WAL data: the context is cancelled, the connection
  fails, a message cannot be read; whatever the loop then returns, its deferred acknowledgment has
  run. The slot then has confirmed one of the positions sent, and never goes back.\<close>

inductive lives ::
    "'v lib \<Rightarrow> 'v source \<Rightarrow> event_filter \<Rightarrow> (world, 'v) handler \<Rightarrow> world \<Rightarrow> lsn \<Rightarrow> world \<Rightarrow> bool"
  for L so flt handle w0 where
  unborn: "lives L so flt handle w0 0 w0"
| killed: "lives L so flt handle w0 c w \<Longrightarrow> later w w1 \<Longrightarrow> resends L so c tks \<Longrightarrow>
    message_loop L handle start tks (new_stream conn slot pub flt) w1 = ((st, w2, lp), Continue) \<Longrightarrow>
    p \<in> insert c (set (lp_sent lp)) \<Longrightarrow> lives L so flt handle w0 (max c p) w2"
| stopped: "lives L so flt handle w0 c w \<Longrightarrow> later w w1 \<Longrightarrow> resends L so c tks \<Longrightarrow>
    message_loop L handle start tks (new_stream conn slot pub flt) w1 = ((st1, w2, lp1), Continue) \<Longrightarrow>
    tk_cancelled tk \<or> tick_xlog L tk = None \<Longrightarrow>
    message_loop L handle start (tks @ [tk]) (new_stream conn slot pub flt) w1 = ((st, w3, lp), r) \<Longrightarrow>
    p \<in> insert c (set (lp_sent lp)) \<Longrightarrow> lives L so flt handle w0 (max c p) w3"

section \<open>What an acknowledgment covers\<close>

lemma less_inc_word: "x < y + 1 \<Longrightarrow> x \<le> (y :: lsn)"
  by (metis add.commute inc_le linorder_not_le order_less_imp_le word_le_sub1 leD)

lemma less_inc_word_iff: "(x :: lsn) \<le> y \<Longrightarrow> y + 1 \<noteq> 0 \<Longrightarrow> x < y + 1"
  using unatSuc [of y] by (simp add: word_less_nat_alt word_le_nat_alt add.commute)

lemma session_of_split: "k \<le> m \<Longrightarrow> m \<le> n \<Longrightarrow> \<exists>ys. session_of so k n = session_of so k m @ ys"
  unfolding session_of_def by (metis concat_append le_Suc_ex map_append upt_add_eq_append)

lemma confirmed_prefix:
  assumes "texts_fit so t" and "session_of so k (so_count so) = xs @ rest" and "xs \<noteq> []"
    and "k \<le> t" and "t < so_count so" and "so_commit so t \<le> end_position (last xs)"
  shows "\<exists>ys. xs = session_of so k (Suc t) @ ys"
proof -
  obtain ms x where msgs: "session_of so k (Suc t) = ms @ [x]"
    and ms: "\<forall>y \<in> set ms. end_position y < so_commit so t"
    using assms(1,4) unfolding texts_fit_def by meson
  obtain more where "session_of so k (so_count so) = session_of so k (Suc t) @ more"
    using session_of_split [of k "Suc t" "so_count so" so] assms(4,5) by auto
  then have full: "xs @ rest = ms @ x # more"
    using assms(2) msgs by simp
  have "last xs \<notin> set ms"
    using ms assms(6) by auto
  then have no_prefix: "xs @ us \<noteq> ms" for us
    using assms(3) by (metis Un_iff last_in_set set_append)
  from full obtain us where "xs @ us = ms \<or> xs = ms @ us \<and> us @ rest = x # more"
    by (auto simp: append_eq_append_conv2)
  with no_prefix [of us] no_prefix [of "[]"] obtain us' where "xs = ms @ x # us'"
    by (cases us) auto
  with msgs show ?thesis
    by simp
qed

text \<open>The reading of a first part of the log is a first part of its events.\<close>

lemma wal_events_append:
  "wal_events L wc (ms @ ms') = do {
     (wc1, evs) \<leftarrow> wal_events L wc ms;
     (wc2, evs') \<leftarrow> wal_events L wc1 ms';
     Some (wc2, evs @ evs') }"
  by (induction ms arbitrary: wc) (auto split: option.split prod.split bind_splits)

lemma received_messages:
  "concat (map (tick_messages L) tks) = xlog_messages L (received_xlogs L tks)"
  by (induction tks)
    (auto simp: xlog_messages_def received_xlogs_def tick_messages_def List.map_filter_def comp_def split: option.split sum.split)

lemma xlog_messages_append [simp]: "xlog_messages L (xs @ ys) = xlog_messages L xs @ xlog_messages L ys"
  by (simp add: xlog_messages_def)

lemma received_events:
  assumes "source_ok L so" and "k \<le> so_count so" and "session_of so k (so_count so) = xs @ rest"
  obtains wc evs where "wal_events L fresh_context (xlog_messages L xs) = Some (wc, evs)"
    and "\<And>t ys. k \<le> t \<Longrightarrow> t < so_count so \<Longrightarrow> xs = session_of so k (Suc t) @ ys \<Longrightarrow> set (so_events so t) \<subseteq> set evs"
proof -
  obtain wc0 evs0 where "wal_events L fresh_context (xlog_messages L (xs @ rest)) = Some (wc0, evs0)"
    using assms(1,2) unfolding assms(3) [symmetric] source_ok_def by blast
  then obtain wc evs where xs: "wal_events L fresh_context (xlog_messages L xs) = Some (wc, evs)"
    by (auto simp: wal_events_append bind_eq_Some_conv)
  have "set (so_events so t) \<subseteq> set evs"
    if le: "k \<le> t" "t < so_count so" and eq: "xs = session_of so k (Suc t) @ ys" for t ys
  proof -
    obtain wc1 where "wal_events L fresh_context (xlog_messages L (session_of so k (Suc t)))
        = Some (wc1, concat (map (so_events so) [k..<Suc t]))"
      using assms(1) le unfolding source_ok_def by (metis Suc_leI le_SucI)
    with xs le(1) eq show ?thesis
      by (auto simp: wal_events_append bind_eq_Some_conv)
  qed
  with xs that show thesis by blast
qed

lemma events_of_whole_transactions:
  assumes "source_ok L so" and "k \<le> t" and "t < so_count so" and "session_of so k (so_count so) = xs @ rest"
    and "xs = session_of so k (Suc t) @ ys"
  shows "\<exists>wc more. wal_events L fresh_context (xlog_messages L xs) = Some (wc, concat (map (so_events so) [k..<Suc t]) @ more)"
proof -
  have "k \<le> so_count so"
    using assms(2,3) by simp
  obtain wc0 evs0 where "wal_events L fresh_context (xlog_messages L (xs @ rest)) = Some (wc0, evs0)"
    using assms(1) \<open>k \<le> so_count so\<close> unfolding assms(4) [symmetric] source_ok_def by blast
  moreover obtain wc1 where "wal_events L fresh_context (xlog_messages L (session_of so k (Suc t)))
      = Some (wc1, concat (map (so_events so) [k..<Suc t]))"
    using assms(1-3) unfolding source_ok_def by (metis Suc_leI le_SucI)
  ultimately show ?thesis
    unfolding assms(5) by (auto simp: wal_events_append bind_eq_Some_conv simp del: upt_Suc)
qed

lemma last_end_take:
  "last_end L (take j tks) =
     (if received_xlogs L (take j tks) = [] then 0 else end_position (last (received_xlogs L (take j tks))))"
  by (simp add: last_end_def received_xlogs_def last_conv_nth hd_rev [symmetric] split: list.split)

lemma received_xlogs_take: "\<exists>ys. received_xlogs L tks = received_xlogs L (take j tks) @ ys"
  unfolding received_xlogs_def List.map_filter_def
  by (metis append_take_drop_id filter_append map_append)

text \<open>A run that goes well: everything it received is handed over, and what it acknowledges, now or
  next, is the end of something it received.\<close>

lemma life_run:
  assumes "\<forall>tk \<in> set tks. quiet_tick L tk \<and> (\<forall>(l, m) \<in> set (tick_messages L tk). message_ok m)"
    and "wal_events L fresh_context (concat (map (tick_messages L) tks)) = Some (wc, evs)"
    and "message_loop L handle start tks (new_stream conn slot pub flt) h = ((st, h', lp), Continue)"
  shows "deliver_all handle (filter (matches (lib_lower L) flt) evs) h = (h', None)"
    and "p \<in> insert (lp_received lp + 1) (set (lp_sent lp)) \<Longrightarrow> \<exists>j. p = last_end L (take j tks) + 1"
proof -
  let ?st = "new_stream conn slot pub flt"
  have new: "stream_context ?st = fresh_context" "st_filter ?st = flt" "relations_ok (st_relations ?st)"
    by (simp_all add: stream_context_def fresh_context_def new_stream_def relations_ok_def)
  have run: "run_loop L handle tks (?st, h, start_loop start) = ((st, h', lp), Continue)"
    using assms(3) by (auto simp: message_loop_def split: prod.splits outcome.splits)
  show "deliver_all handle (filter (matches (lib_lower L) flt) evs) h = (h', None)"
    using run_loop_wal [OF assms(1) _ new(3), of wc evs handle h "start_loop start"] assms(2) new run
    by (cases "deliver_all handle (filter (matches (lib_lower L) flt) evs) h")
      (auto split: option.splits)
  assume "p \<in> insert (lp_received lp + 1) (set (lp_sent lp))"
  then have "p = last_end L tks + 1 \<or> p \<in> set (lp_sent lp)"
    using run_loop_received [OF run] by auto
  then show "\<exists>j. p = last_end L (take j tks) + 1"
    using run_loop_acks [OF run] by (metis order_refl take_all)
qed

lemma loop_step_no_wal:
  assumes "loop_step L handle tk (st, h, lp) = ((st', h', lp'), r)" and "tk_cancelled tk \<or> tick_xlog L tk = None"
  shows "h' = h" and "lp_received lp' = lp_received lp" and "set (lp_sent lp') \<subseteq> insert (lp_received lp + 1) (set (lp_sent lp))"
proof -
  show "set (lp_sent lp') \<subseteq> insert (lp_received lp + 1) (set (lp_sent lp))"
    by (rule loop_step_effect(1) [OF assms(1)])
  obtain lp1 e where p: "periodic_ack tk lp = (lp1, e)"
    by fastforce
  have "h' = h \<and> lp_received lp' = lp_received lp"
    using assms p periodic_ack_effect(1) [OF p]
    by (auto simp: loop_step_def copy_data_def tick_xlog_def send_ack_def Let_def
        split: if_splits option.splits received.splits list.splits sum.splits)
  then show "h' = h" and "lp_received lp' = lp_received lp"
    by simp_all
qed

lemma life_stopped:
  assumes "message_loop L handle start tks st h = ((st1, h1, lp1), Continue)" and "tk_cancelled tk \<or> tick_xlog L tk = None"
    and "message_loop L handle start (tks @ [tk]) st h = ((st2, h2, lp2), r)"
  shows "h2 = h1" and "set (lp_sent lp2) \<subseteq> insert (lp_received lp1 + 1) (set (lp_sent lp1))"
proof -
  have run: "run_loop L handle tks (st, h, start_loop start) = ((st1, h1, lp1), Continue)"
    using assms(1) by (auto simp: message_loop_def split: prod.splits outcome.splits)
  obtain st' h' lp' where step: "loop_step L handle tk (st1, h1, lp1) = ((st', h', lp'), r)"
    and lp2: "h2 = h'" "lp2 = lp' \<or> lp2 = final_ack lp'"
    using assms(3) by (auto simp: message_loop_def run_loop_append run split: prod.splits outcome.splits)
  with loop_step_no_wal [OF step assms(2)]
  show "h2 = h1" and "set (lp_sent lp2) \<subseteq> insert (lp_received lp1 + 1) (set (lp_sent lp1))"
    by (auto simp: final_ack_def send_ack_def split: if_splits)
qed

lemma acknowledged_transaction:
  assumes "texts_fit so t" and "session_of so k (so_count so) = received_xlogs L tks @ rest"
    and "k \<le> t" and "t < so_count so" and "so_commit so t < last_end L (take j tks) + 1"
  shows "\<exists>ys. received_xlogs L tks = session_of so k (Suc t) @ ys"
proof -
  let ?xs = "received_xlogs L (take j tks)"
  have le: "so_commit so t \<le> last_end L (take j tks)"
    by (rule less_inc_word [OF assms(5)])
  moreover have "0 < so_commit so t"
    using assms(1) by (simp add: texts_fit_def)
  ultimately have ne: "?xs \<noteq> []" and last: "so_commit so t \<le> end_position (last ?xs)"
    by (auto simp: last_end_take split: if_splits)
  obtain ys where ys: "received_xlogs L tks = ?xs @ ys"
    using received_xlogs_take by blast
  with confirmed_prefix [OF assms(1) _ ne assms(3,4) last, of "ys @ rest"] assms(2) show ?thesis
    by auto
qed

text \<open>The events confirmed by then have been received, for any chain of sinks whose receipts
  outlive the process.\<close>

locale surviving_sink = sink_contract S received
  for S :: "'v sink" and received +
  assumes received_later: "later w w' \<Longrightarrow> received ev w \<Longrightarrow> received ev w'"
begin

lemma life_received:
  assumes "source_ok L so" and "texts_fit so t" and "resends L so c tks"
    and "message_loop L (handler_of S) start tks (new_stream conn slot pub flt) w = ((st, w', lp), Continue)"
  shows "later w w'"
    and "p \<in> insert (lp_received lp + 1) (set (lp_sent lp)) \<Longrightarrow> t < so_count so \<Longrightarrow> \<not> so_commit so t < c \<Longrightarrow>
      so_commit so t < p \<Longrightarrow> ev \<in> set (so_events so t) \<Longrightarrow> matches (lib_lower L) flt ev \<Longrightarrow> received ev w'"
proof -
  obtain k rest where quiet: "\<forall>tk \<in> set tks. quiet_tick L tk \<and> (\<forall>(l, m) \<in> set (tick_messages L tk). message_ok m)"
    and k: "k \<le> so_count so" "\<forall>t < k. so_commit so t < c"
    and session: "session_of so k (so_count so) = received_xlogs L tks @ rest"
    using assms(3) by (auto simp: resends_def)
  obtain wc evs where evs: "wal_events L fresh_context (concat (map (tick_messages L) tks)) = Some (wc, evs)"
    and whole: "\<And>t ys. k \<le> t \<Longrightarrow> t < so_count so \<Longrightarrow> received_xlogs L tks = session_of so k (Suc t) @ ys
      \<Longrightarrow> set (so_events so t) \<subseteq> set evs"
    unfolding received_messages using received_events [OF assms(1) k(1) session] by blast
  note run = life_run [OF quiet evs assms(4)]
  note got = deliver_all_received [OF run(1)]
  then show "later w w'"
    by (simp add: grows_later)
  assume p: "p \<in> insert (lp_received lp + 1) (set (lp_sent lp))" and t: "t < so_count so" "\<not> so_commit so t < c"
    and less: "so_commit so t < p" and ev: "ev \<in> set (so_events so t)" "matches (lib_lower L) flt ev"
  from run(2) [OF p] obtain j where j: "so_commit so t < last_end L (take j tks) + 1"
    using less by blast
  have k: "k \<le> t"
    using k(2) t(2) by (meson linorder_not_le)
  from acknowledged_transaction [OF assms(2) session k t(1) j] have "set (so_events so t) \<subseteq> set evs"
    using whole [OF k t(1)] by blast
  with ev got show "received ev w'"
    by auto
qed

lemma lives_received:
  assumes "lives L so flt (handler_of S) w0 c w" and "source_ok L so" and "texts_fit so t"
    and "t < so_count so" and "so_commit so t < c" and "ev \<in> set (so_events so t)" and "matches (lib_lower L) flt ev"
  shows "received ev w"
  using assms(1,5)
proof (induction rule: lives.induct)
  case unborn
  then show ?case by simp
next
  case (killed c w w1 tks start conn slot pub st w2 lp p)
  note life = life_received [OF assms(2,3) killed.hyps(3,4)]
  show ?case
    using killed life assms(4,6,7) received_later by (cases "so_commit so t < c") (auto simp: less_max_iff_disj)
next
  case (stopped c w w1 tks start conn slot pub st1 w2 lp1 tk st w3 lp r p)
  note life = life_received [OF assms(2,3) stopped.hyps(3,4)] and stop = life_stopped [OF stopped.hyps(4-6)]
  show ?case
  proof (cases "so_commit so t < c")
    case True
    with stopped.IH life(1) stop(1) stopped.hyps(2) received_later show ?thesis by blast
  next
    case False
    with stopped.prems stopped.hyps(7) have "p \<in> set (lp_sent lp)" and "so_commit so t < p"
      by (auto simp: less_max_iff_disj)
    with life(2) [OF _ assms(4) False _ assms(6,7), of p] stop show ?thesis by blast
  qed
qed

end

interpretation webhook_survives: surviving_sink "metrics_sink (retry_sink convert (webhook_retry J s)) sink_name"
  "\<lambda>ev w. posted (wh_url s) (event_headers ev) (json_event J ev) w \<or> in_dlq J ev w"
  for convert J s sink_name
proof (intro surviving_sink.intro surviving_sink_axioms.intro)
  show "sink_contract (metrics_sink (retry_sink convert (webhook_retry J s)) sink_name)
      (\<lambda>ev w. posted (wh_url s) (event_headers ev) (json_event J ev) w \<or> in_dlq J ev w)"
    by (rule webhook_chain.metered.sink_contract_axioms)
qed (auto dest: posted_later in_dlq_later)

interpretation kafka_survives: surviving_sink "kafka_sink J prefix" "produced J prefix" for J prefix
  by (intro surviving_sink.intro surviving_sink_axioms.intro kafka.sink_contract_axioms) (rule produced_later)

section \<open>A shutdown during a delivery\<close>

lemma cancelled_delivery:
  assumes "json_event J ev = Inr body" and "wh_url_error s = None"
    and "\<not> answered_ok w (length (w_posts w))" and "w_cancelled w (w_polls w)"
  shows "\<exists>w' e. handler_of (metrics_sink (retry_sink convert (webhook_retry J s)) sink_name) w ev
      = (w', Some (Wrapped ''context cancelled during retry: '' e))
    \<and> w_posts w' = w_posts w @ [request_for s ev body] \<and> w_http w' = w_http w \<and> w_dlq w' = w_dlq w"
proof -
  let ?w = "note_lag ev (snd (now w))"
  have same: "w_posts ?w = w_posts w" "w_http ?w = w_http w" "w_dlq ?w = w_dlq w" "w_polls ?w = w_polls w"
      "w_cancelled ?w = w_cancelled w"
    by (simp_all add: note_lag_def now_def measure_as_def)
  then have "\<not> answered_ok ?w (length (w_posts ?w))"
    using assms(3) by (simp add: answered_ok_def)
  with webhook_deliver_cases [OF assms(1,2), of ?w] obtain e where
    "webhook_deliver J s ev ?w = Some (?w\<lparr>w_posts := w_posts ?w @ [request_for s ev body]\<rparr>, Some e)"
    by auto
  moreover have "[0..<5] = 0 # [1..<5]"
    by (simp add: upt_rec)
  ultimately show ?thesis
    using same assms(4)
    by (simp add: handler_of_def metrics_sink_def metrics_deliver_def retry_sink_def retry_deliver_def webhook_sink_def
        ctx_err_def measure_as_def now_def Let_def case_prod_beta)
qed

lemma posted_refused:
  assumes "w_posts w' = w_posts w @ [q]" and "w_http w' = w_http w" and "\<not> answered_ok w (length (w_posts w))"
  shows "posted url headers json w' \<longleftrightarrow> posted url headers json w"
  using assms by (auto simp: posted_def answered_ok_def nth_append less_Suc_eq)

section \<open>Properties\<close>

text \<open>
  C8. An acknowledgment that the loop sends while it runs confirms only what has been handled: when it
  is above the commit of a transaction, then after some first rounds, all without an error, every
  message of this transaction had been received, and the handler had accepted the events the filter
  passes, of this transaction and all before it. The handler is arbitrary, and the run may fail
  later. The transaction's messages must fit its piece of the log (\<open>texts_fit\<close>).
\<close>

theorem acks_confirm_handled:
  assumes "run_loop L handle tks (new_stream conn slot pub flt, h, start_loop start) = ((st', h', lp'), r)"
    and "p \<in> set (lp_sent lp')" and "so_commit so t < p"
    and "source_ok L so" and "texts_fit so t" and "k \<le> t" and "t < so_count so"
    and "session_of so k (so_count so) = received_xlogs L tks @ rest"
    and "\<forall>tk \<in> set tks. quiet_tick L tk \<and> (\<forall>(l, m) \<in> set (tick_messages L tk). message_ok m)"
  shows "\<exists>n \<le> length tks. \<exists>st1 h1 lp1 ys more.
    run_loop L handle (take n tks) (new_stream conn slot pub flt, h, start_loop start) = ((st1, h1, lp1), Continue)
    \<and> received_xlogs L (take n tks) = session_of so k (Suc t) @ ys
    \<and> deliver_all handle (filter (matches (lib_lower L) flt) (concat (map (so_events so) [k..<Suc t]) @ more)) h = (h1, None)"
proof -
  let ?st = "new_stream conn slot pub flt"
  obtain n where n: "n \<le> length tks" "p = last_end L (take n tks) + 1"
    and go: "snd (run_loop L handle (take n tks) (?st, h, start_loop start)) = Continue"
    using run_loop_acks [OF assms(1,2)] by blast
  obtain st1 h1 lp1 where run: "run_loop L handle (take n tks) (?st, h, start_loop start) = ((st1, h1, lp1), Continue)"
    using go by (metis prod.collapse)
  obtain zs where "received_xlogs L tks = received_xlogs L (take n tks) @ zs"
    using received_xlogs_take by blast
  with assms(8) have session: "session_of so k (so_count so) = received_xlogs L (take n tks) @ zs @ rest"
    by simp
  from acknowledged_transaction [OF assms(5) session assms(6,7), of n] assms(3) n(2)
  obtain ys where ys: "received_xlogs L (take n tks) = session_of so k (Suc t) @ ys"
    by auto
  obtain wc more where evs: "wal_events L fresh_context (concat (map (tick_messages L) (take n tks)))
      = Some (wc, concat (map (so_events so) [k..<Suc t]) @ more)"
    using events_of_whole_transactions [OF assms(4,6,7) session ys] unfolding received_messages by blast
  have quiet: "\<forall>tk \<in> set (take n tks). quiet_tick L tk \<and> (\<forall>(l, m) \<in> set (tick_messages L tk). message_ok m)"
    using assms(9) by (auto dest: in_set_takeD)
  have loop: "message_loop L handle start (take n tks) ?st h = ((st1, h1, lp1), Continue)"
    by (simp add: message_loop_def run)
  show ?thesis
    using n(1) run ys life_run(1) [OF quiet evs loop] by blast
qed

text \<open>
  C4. Over any number of restarts, every event of a transaction the slot has confirmed has been
  answered by a 2xx or is in the file of the dead-letter queue, when metrics, retry and a webhook
  are the handler: a process may end before an acknowledgment, the next one starts from what is
  confirmed, and nothing falls in between. A run may end by a kill, or with a round that brings no
  WAL data (a cancelled context, a lost connection, a message that cannot be read); that no run
  ends with a message that could not be processed is part of \<open>lives\<close>, since that loses events
  (\<open>shutdown_loses_event\<close>), and so does a message longer than its piece of the log, which
  \<open>texts_fit\<close> excludes for this transaction (\<open>long_text_skips_transaction\<close>).
\<close>

theorem restarts_lose_nothing:
  assumes "lives L so flt (handler_of (metrics_sink (retry_sink convert (webhook_retry J s)) sink_name)) w0 c w"
    and "source_ok L so" and "texts_fit so t"
    and "t < so_count so" and "so_commit so t < c" and "ev \<in> set (so_events so t)" and "matches (lib_lower L) flt ev"
  shows "posted (wh_url s) (event_headers ev) (json_event J ev) w \<or> in_dlq J ev w"
  using assms by (rule webhook_survives.lives_received)


text \<open>
  C19. Where \<open>texts_fit\<close> fails, an acknowledgment covers what has not been received: the code adds the
  length of a message's text to the position of its start, so a message longer than its piece of
  the log reaches past the commit of its own transaction, the reply to a keepalive confirms that
  commit, and a server that is asked again may go on after the transaction, the rest of which was
  never received.
\<close>

theorem long_text_skips_transaction:
  assumes "run_loop L handle tks (st, h, start_loop start) = ((st1, h1, lp1), Continue)"
    and "received_xlogs L tks = session_of so k t @ ms @ [x]"
    and "k \<le> t" and "t < so_count so" and "so_messages so k t = ms @ x # missing" and "missing \<noteq> []"
    and "\<forall>i < t. so_commit so i < so_commit so t"
    and "so_commit so t \<le> end_position x" and "end_position x + 1 \<noteq> 0"
    and "quiet_tick L tk" and "tk_recv tk = RecvCopy (CHR ''k'' # body)" and "lib_keepalive L body = Inr True"
    and "\<forall>tk \<in> set tks'. quiet_tick L tk \<and> (\<forall>(l, m) \<in> set (tick_messages L tk). message_ok m)"
    and "session_of so (Suc t) (so_count so) = received_xlogs L tks'"
  shows "\<exists>lp'. run_loop L handle (tks @ [tk]) (st, h, start_loop start) = ((st1, h1, lp'), Continue)
    \<and> so_commit so t < last (lp_sent lp') \<and> resends L so (last (lp_sent lp')) tks'"
proof -
  obtain lp' where run: "run_loop L handle (tks @ [tk]) (st, h, start_loop start) = ((st1, h1, lp'), Continue)"
    and sent: "last (lp_sent lp') = last_end L tks + 1"
    using keepalive_ack [OF assms(1,10-12)] by blast
  have "last_end L tks = end_position x"
    using last_end_take [of L "length tks" tks] assms(2) by simp
  then have less: "so_commit so t < last (lp_sent lp')"
    using assms(8,9) sent by (metis less_inc_word_iff)
  moreover from this have "\<forall>i < Suc t. so_commit so i < last (lp_sent lp')"
    using assms(7) by (auto simp: less_Suc_eq intro: less_trans)
  ultimately show ?thesis
    using run assms(4,13,14) by (auto simp: resends_def intro!: exI [of _ "Suc t"])
qed

section \<open>Concrete instances of the properties\<close>

text \<open>One transaction with one row, as in \<open>sample_ticks\<close>.\<close>

definition sample_source :: "lsn \<Rightarrow> nat source" where
  "sample_source commit =
     \<lparr>so_count = 1, so_commit = (\<lambda>i. commit), so_messages = (\<lambda>k i. received_xlogs sample_lib sample_ticks),
      so_events = (\<lambda>i. [sample_event])\<rparr>"

lemma sample_received:
  "received_xlogs sample_lib sample_ticks =
     [\<lparr>xl_start = 65, xl_data = ''R''\<rparr>, \<lparr>xl_start = 66, xl_data = ''B''\<rparr>,
      \<lparr>xl_start = 67, xl_data = ''I''\<rparr>, \<lparr>xl_start = 68, xl_data = ''C''\<rparr>]"
  by (simp add: received_xlogs_def sample_ticks_def List.map_filter_def tick_xlog_def sample_tick_def sample_lib_def)

lemma sample_source_ok: "source_ok sample_lib (sample_source 69)"
proof -
  have "session_of (sample_source 69) 0 (Suc 0) = received_xlogs sample_lib sample_ticks"
    by (simp add: session_of_def sample_source_def)
  moreover have "wal_events sample_lib fresh_context (xlog_messages sample_lib (received_xlogs sample_lib sample_ticks))
      = Some (\<lparr>wc_relations = [7 \<mapsto> sample_relation], wc_xid = 0, wc_time = zero_time\<rparr>, [sample_event])"
    using sample_wal by (simp add: received_messages sample_context fresh_context_def)
  moreover have "session_of so k k = []" for so :: "nat source" and k
    by (simp add: session_of_def)
  ultimately show ?thesis
    by (auto simp: source_ok_def sample_source_def le_Suc_eq xlog_messages_def)
qed

lemma sample_texts_fit: "texts_fit (sample_source 69) 0"
  unfolding texts_fit_def
  by (auto simp: sample_source_def session_of_def sample_received end_position_def
      intro!: exI [of _ "take 3 (received_xlogs sample_lib sample_ticks)"])

lemma sample_keepalive: "quiet_tick sample_lib (sample_tick n ''k'')" "tk_recv (sample_tick n ''k'') = RecvCopy (CHR ''k'' # [])"
    "lib_keepalive sample_lib [] = Inr True" "tick_xlog sample_lib (sample_tick n ''k'') = None"
  by (simp_all add: quiet_tick_def sample_tick_def sample_lib_def tick_xlog_def)

text \<open>The keepalive after the transaction is answered with 70, which confirms its commit at 69.\<close>

theorem acks_confirm_handled_witness:
  "\<exists>n h1. n \<le> 6 \<and> snd (run_loop sample_lib (\<lambda>h ev. (h @ [ev], None)) (take n (sample_ticks @ [sample_tick 5 ''k'']))
        (sample_stream, [], start_loop 0)) = Continue
    \<and> sample_event \<in> set h1 \<and> fst (snd (fst (run_loop sample_lib (\<lambda>h ev. (h @ [ev], None))
        (take n (sample_ticks @ [sample_tick 5 ''k''])) (sample_stream, [], start_loop 0)))) = h1"
proof -
  let ?handle = "\<lambda>h ev. (h @ [ev], None)" and ?tks = "sample_ticks @ [sample_tick 5 ''k'']" and ?so = "sample_source 69"
  have "\<exists>st lp. run_loop sample_lib ?handle ?tks (sample_stream, [], start_loop 0) = ((st, [sample_event], lp), Continue)
      \<and> 70 \<in> set (lp_sent lp)"
    by (simp add: loop_defs sample_defs sample_ticks_def sample_event_def)
  then obtain st lp where run: "run_loop sample_lib ?handle ?tks
        (new_stream ''postgres://h/db'' ''slot'' ''pub'' (new_filter id id [] []), [], start_loop 0) = ((st, [sample_event], lp), Continue)"
      and p: "70 \<in> set (lp_sent lp)"
    unfolding sample_stream_def by blast
  have received: "session_of ?so 0 (so_count ?so) = received_xlogs sample_lib ?tks @ []"
    by (simp add: session_of_def sample_source_def received_xlogs_def List.map_filter_def sample_keepalive(4))
  have quiet: "\<forall>tk \<in> set ?tks. quiet_tick sample_lib tk \<and> (\<forall>(l, m) \<in> set (tick_messages sample_lib tk). message_ok m)"
    using sample_quiet sample_keepalive(1,4) by (auto simp: tick_messages_def)
  have "so_commit ?so 0 < 70" "0 < so_count ?so"
    by (simp_all add: sample_source_def)
  from acks_confirm_handled [OF run p this(1) sample_source_ok sample_texts_fit _ this(2) received quiet]
  obtain n st1 h1 lp1 more where n: "n \<le> length ?tks" "run_loop sample_lib ?handle (take n ?tks) (sample_stream, [], start_loop 0) = ((st1, h1, lp1), Continue)"
    and h1: "deliver_all ?handle (filter (matches (lib_lower sample_lib) (new_filter id id [] [])) (so_events ?so 0 @ more)) [] = (h1, None)"
    unfolding sample_stream_def by auto
  have keeps: "deliver_all ?handle evs h = (h @ evs, None)" for evs :: "nat change_event list" and h
    by (induction evs arbitrary: h) auto
  have "sample_event \<in> set h1"
    using h1 by (auto simp: keeps sample_source_def matches_iff keys_def new_filter_def)
  with n show ?thesis
    by (intro exI [of _ n] exI [of _ h1]) (simp add: sample_ticks_def)
qed

theorem restarts_lose_nothing_witness:
  "\<exists>w. lives sample_lib (sample_source 69) (new_filter id id [] [])
        (handler_of (metrics_sink (retry_sink id (webhook_retry sample_codec sample_hook)) ''webhook'')) sample_world 70 w
     \<and> (posted ''http://h'' (event_headers sample_event) (json_event sample_codec sample_event) w
        \<or> in_dlq sample_codec sample_event w)"
proof -
  let ?handle = "handler_of (metrics_sink (retry_sink id (webhook_retry sample_codec sample_hook)) ''webhook'')"
  let ?flt = "new_filter id id [] []" and ?tks = "sample_ticks @ [sample_tick 5 ''k'']"
  obtain st w lp0 where "run_loop sample_lib ?handle sample_ticks (sample_stream, sample_world, start_loop 0) = ((st, w, lp0), Continue)"
    using sample_chain_run by blast
  from keepalive_ack [OF this sample_keepalive(1-3), of 5]
  obtain lp where run: "run_loop sample_lib ?handle ?tks (sample_stream, sample_world, start_loop 0) = ((st, w, lp), Continue)"
    and sent: "lp_sent lp \<noteq> []" "last (lp_sent lp) = last_end sample_lib sample_ticks + 1"
    by blast
  have "last_end sample_lib sample_ticks = 69"
    using last_end_take [of sample_lib "length sample_ticks" sample_ticks] by (simp add: sample_received end_position_def)
  with sent have p: "70 \<in> insert 0 (set (lp_sent lp))"
    using last_in_set by fastforce
  have "received_xlogs sample_lib ?tks = received_xlogs sample_lib sample_ticks"
    by (simp add: received_xlogs_def List.map_filter_def sample_keepalive(4))
  then have resent: "resends sample_lib (sample_source 69) 0 ?tks"
    using sample_quiet sample_keepalive(1,4)
    by (auto simp: resends_def sample_source_def session_of_def tick_messages_def)
  have loop: "message_loop sample_lib ?handle 0 ?tks (new_stream ''postgres://h/db'' ''slot'' ''pub'' ?flt) sample_world
      = ((st, w, lp), Continue)"
    using run by (simp add: message_loop_def sample_stream_def)
  have "lives sample_lib (sample_source 69) ?flt ?handle sample_world (max 0 70) w"
    by (rule lives.killed [OF lives.unborn later_refl resent loop p])
  then have lives: "lives sample_lib (sample_source 69) ?flt ?handle sample_world 70 w"
    by simp
  have "posted (wh_url sample_hook) (event_headers sample_event) (json_event sample_codec sample_event) w
      \<or> in_dlq sample_codec sample_event w"
    by (rule restarts_lose_nothing [OF lives sample_source_ok sample_texts_fit])
      (simp_all add: sample_source_def matches_iff keys_def new_filter_def)
  with lives show ?thesis
    by (auto simp: sample_hook_def)
qed


text \<open>The commit is at 67, where the \<open>BEGIN\<close> message seems to end; the row has not been received.\<close>

theorem long_text_skips_transaction_witness:
  "\<exists>c. run_loop sample_lib (\<lambda>h ev. (h @ [ev], None)) [sample_tick 0 ''wAR'', sample_tick 1 ''wBB'', sample_tick 2 ''k'']
      (sample_stream, [], start_loop 0) = (c, Continue)
    \<and> fst (snd c) = [] \<and> 67 < last (lp_sent (snd (snd c)))
    \<and> resends sample_lib (sample_source 67) (last (lp_sent (snd (snd c)))) []"
proof -
  let ?so = "sample_source 67" and ?tks = "[sample_tick 0 ''wAR'', sample_tick 1 ''wBB'']"
  let ?R = "\<lparr>xl_start = 65, xl_data = ''R''\<rparr>" and ?B = "\<lparr>xl_start = 66, xl_data = ''B''\<rparr>"
  obtain st1 lp1 where run: "run_loop sample_lib (\<lambda>h ev. (h @ [ev], None)) ?tks (sample_stream, [], start_loop 0)
      = ((st1, [], lp1), Continue)"
    by (simp add: loop_defs sample_defs)
  have received: "received_xlogs sample_lib ?tks = session_of ?so 0 0 @ [?R] @ [?B]"
    by (simp add: received_xlogs_def List.map_filter_def tick_xlog_def sample_tick_def sample_lib_def session_of_def)
  have rest: "so_messages ?so 0 0 = [?R] @ ?B # drop 2 (received_xlogs sample_lib sample_ticks)"
      "drop 2 (received_xlogs sample_lib sample_ticks) \<noteq> []"
    by (simp_all add: sample_source_def sample_received)
  have "session_of ?so (Suc 0) (so_count ?so) = received_xlogs sample_lib []"
    by (simp add: session_of_def sample_source_def received_xlogs_def)
  from long_text_skips_transaction [OF run received _ _ rest _ _ _ sample_keepalive(1-3) _ this, of 2] show ?thesis
    by (auto simp: sample_source_def end_position_def)
qed

end
