(* ===== verification/Snapshot_Stream.thy ===== *)
theory Snapshot_Stream
  imports Restarts
begin

text \<open>
  A snapshot and then the stream, in the order of \<open>docs/architecture.md\<close>: \<open>Snapshot.Run\<close>, the
  position it gives to \<open>SetStartLSN\<close>, then \<open>Stream.Run\<close>, on one handler. What is proved is exactly
  which changes the handler gets, and which of them it never gets.

  Of the server is assumed what PostgreSQL documents: a slot gives the transactions from its own
  position on, the later of it and the position asked for, and nothing before. A slot that \<open>Run\<close>
  creates is at its consistent point, where it was created.
\<close>

section \<open>The two phases\<close>

text \<open>A handler that keeps what it is given.\<close>

definition keep :: "('v change_event list, 'v) handler" where
  "keep = (\<lambda>h ev. (h @ [ev], None))"

definition snapshot_then_stream ::
    "'v lib \<Rightarrow> (string set \<Rightarrow> string list) \<Rightarrow> ('h, 'v) handler \<Rightarrow> 'v snap_server \<Rightarrow> snapshot \<Rightarrow> server \<Rightarrow> time
      \<Rightarrow> tick list \<Rightarrow> stream \<Rightarrow> 'h \<Rightarrow> command list \<times> 'h \<times> outcome" where
  "snapshot_then_stream L order handle ss sn sv start tks st h =
     (case snapshot_run handle ss sn h of
        (cmds, h', ms, Inl e) \<Rightarrow> (cmds, h', Return (Some e))
      | (cmds, h', ms, Inr l) \<Rightarrow>
          (case run L order sv handle start tks (set_start_lsn l st) h' of
             (cmds', (st', h'', lp), r) \<Rightarrow> (cmds @ cmds', h'', r)))"

text \<open>A snapshot that goes well, at the position \<open>l\<close>.\<close>

definition snapshot_fine ::
    "'v snap_server \<Rightarrow> snapshot \<Rightarrow> (nat \<Rightarrow> string list) \<Rightarrow> (nat \<Rightarrow> 'v val list list) \<Rightarrow> string \<Rightarrow> bool" where
  "snapshot_fine ss sn cols rows l \<longleftrightarrow> answers_ok ss 0 (sn_tables sn) cols rows \<and> sn_tables sn \<noteq> []
     \<and> ss_connect ss = None \<and> ss_begin ss = None \<and> ss_lsn ss = Inr l \<and> ss_commit ss = None \<and> l \<noteq> []"

text \<open>The rounds of a stream that got the transactions \<open>k\<close> to \<open>m\<close>, the first being the first whose
  commit is at \<open>c\<close> or later.\<close>

definition streams_from :: "'v lib \<Rightarrow> 'v source \<Rightarrow> lsn \<Rightarrow> nat \<Rightarrow> nat \<Rightarrow> tick list \<Rightarrow> bool" where
  "streams_from L so c k m tks \<longleftrightarrow> k \<le> m \<and> m \<le> so_count so
     \<and> (\<forall>t < so_count so. t < k \<longleftrightarrow> so_commit so t < c)
     \<and> (\<forall>tk \<in> set tks. quiet_tick L tk \<and> (\<forall>(l, m) \<in> set (tick_messages L tk). message_ok m))
     \<and> received_xlogs L tks = session_of so k m"

section \<open>Facts\<close>

lemma handle_all_keep: "handle_all keep evs h = (h @ evs, None)"
  by (induction evs arbitrary: h) (auto simp: keep_def)

lemma deliver_all_keep: "deliver_all keep evs h = (h @ evs, None)"
  using deliver_all_handle_all [of keep evs h] by (simp add: handle_all_keep prod_eq_iff)

lemma set_start_lsn_context:
  "stream_context (set_start_lsn l (new_stream conn slot pub flt)) = fresh_context"
  "st_filter (set_start_lsn l (new_stream conn slot pub flt)) = flt"
  "relations_ok (st_relations (set_start_lsn l (new_stream conn slot pub flt)))"
  "st_start_override (set_start_lsn l st) = l"
  by (simp_all add: stream_context_def fresh_context_def set_start_lsn_def new_stream_def relations_ok_def)

lemma snapshot_run_commits:
  "snapshot_run handle ss sn h = (cmds, h', ms, Inr l) \<Longrightarrow> sn_tables sn \<noteq> [] \<Longrightarrow> \<exists>cmds'. cmds = cmds' @ [Exec ''commit'' []]"
  by (auto simp: snapshot_run_def Let_def split: option.splits sum.splits prod.splits)

lemma planned_events_lsn: "ev \<in> set (planned_events ss cols rows i ts) \<Longrightarrow> ev_lsn ev = ''snapshot''"
  by (induction ts arbitrary: i) (auto simp: table_events_def snapshot_event_def)

lemma setup_creates_slot:
  "run_setup L order sv st = (cmds, Continue) \<Longrightarrow> CreateSlot (st_slot st) ''pgoutput'' \<in> set cmds"
  by (auto simp: run_setup_def ensure_slot_def Let_def split: option.splits sum.splits prod.splits)

lemma snapshot_then_stream_keep:
  assumes "snapshot_fine ss sn cols rows l"
    and "run_setup L order sv (set_start_lsn l (new_stream conn slot pub flt)) = (setup, Continue)"
    and "source_ok L so" and "streams_from L so c k m tks"
  shows "\<exists>cmds. snapshot_then_stream L order keep ss sn sv start tks (new_stream conn slot pub flt) []
    = (cmds @ Exec ''commit'' [] # setup, planned_events ss cols rows 0 (sn_tables sn)
        @ filter (matches (lib_lower L) flt) (concat (map (so_events so) [k..<m])), Continue)"
proof -
  let ?st = "set_start_lsn l (new_stream conn slot pub flt)"
  let ?rows = "planned_events ss cols rows 0 (sn_tables sn)"
  obtain cmds ms where snap: "snapshot_run keep ss sn [] = (cmds, ?rows, ms, Inr l)"
    using snapshot_run_ok [of ss sn cols rows l keep "[]"] assms(1) by (auto simp: snapshot_fine_def handle_all_keep)
  obtain cmds1 where commit: "cmds = cmds1 @ [Exec ''commit'' []]"
    using snapshot_run_commits [OF snap] assms(1) by (auto simp: snapshot_fine_def)
  have quiet: "\<forall>tk \<in> set tks. quiet_tick L tk \<and> (\<forall>(l, m) \<in> set (tick_messages L tk). message_ok m)"
    and km: "k \<le> m" "m \<le> so_count so" and received: "received_xlogs L tks = session_of so k m"
    using assms(4) by (auto simp: streams_from_def)
  obtain wc where "wal_events L (stream_context ?st) (concat (map (tick_messages L) tks))
      = Some (wc, concat (map (so_events so) [k..<m]))"
    using assms(3) km unfolding source_ok_def received_messages received set_start_lsn_context by blast
  from run_loop_wal [OF quiet this set_start_lsn_context(3), of keep ?rows "start_loop start"]
  obtain st' lp where "message_loop L keep start tks ?st ?rows
      = ((st', ?rows @ filter (matches (lib_lower L) flt) (concat (map (so_events so) [k..<m])), lp), Continue)"
    by (auto simp: deliver_all_keep set_start_lsn_context message_loop_def)
  with snap assms(2) show ?thesis
    by (simp add: snapshot_then_stream_def run_def commit)
qed

section \<open>Properties\<close>

text \<open>
  C11. A snapshot and then the stream ask for replication at the snapshot's position and hand over
  exactly the rows of the snapshot and, after them and in order, those events the filter passes of
  the transactions sent so far that commit neither before the snapshot's position nor before the
  position of the slot, as \<open>ensureSlot\<close> found or made it.
\<close>

theorem snapshot_then_stream_log:
  assumes "snapshot_fine ss sn cols rows l" and "lib_parse_lsn L l = Inr p" and "slot_position L sv = Some q"
    and "run_setup L order sv (set_start_lsn l (new_stream conn slot pub flt)) = (setup, Continue)"
    and "source_ok L so" and "streams_from L so (max p q) k m tks"
  shows "\<exists>cmds args. snapshot_then_stream L order keep ss sn sv start tks (new_stream conn slot pub flt) []
      = (cmds @ [StartReplication slot p args], planned_events ss cols rows 0 (sn_tables sn)
          @ filter (matches (lib_lower L) flt)
              (concat (map (so_events so) (filter (\<lambda>t. p \<le> so_commit so t \<and> q \<le> so_commit so t) [0..<m]))), Continue)"
proof -
  have slot: "st_slot (set_start_lsn l (new_stream conn slot pub flt)) = slot"
    by (simp add: set_start_lsn_def new_stream_def)
  obtain pre where steps: "setup = pre @ [StartReplication slot p (plugin_args (set_start_lsn l (new_stream conn slot pub flt)))]"
    using setup_start [OF assms(4)] assms(1,2) by (auto simp: slot set_start_lsn_context snapshot_fine_def)
  have km: "k \<le> m"
    using assms(6) by (simp add: streams_from_def)
  have "k \<le> t \<longleftrightarrow> p \<le> so_commit so t \<and> q \<le> so_commit so t" if "t < m" for t
    using assms(6) that by (auto simp: streams_from_def not_less [symmetric] less_max_iff_disj)
  then have "filter (\<lambda>t. p \<le> so_commit so t \<and> q \<le> so_commit so t) [0..<m] = filter (\<lambda>t. k \<le> t) [0..<m]"
    by (intro filter_cong) auto
  also have "\<dots> = [k..<m]"
    using upt_add_eq_append [of 0 k "m - k"] km by simp
  finally have sent: "filter (\<lambda>t. p \<le> so_commit so t \<and> q \<le> so_commit so t) [0..<m] = [k..<m]" .
  from snapshot_then_stream_keep [OF assms(1,4-6), of start] show ?thesis
    unfolding steps sent by (metis append.assoc append_Cons)
qed

text \<open>
  C12. On a first start the position of the snapshot does not help: the slot is created only after the
  snapshot has been committed, and a transaction that commits after the snapshot and before the
  slot's consistent point is in neither. None of its events is ever handed over, although
  replication was asked for from before its commit.
\<close>

theorem new_slot_leaves_gap:
  assumes "snapshot_fine ss sn cols rows l" and "lib_parse_lsn L l = Inr p"
    and "run_setup L order sv (set_start_lsn l (new_stream conn slot pub flt)) = (setup, Continue)"
    and "sv_create_slot sv = Inr point" and "lib_parse_lsn L point = Inr q"
    and "source_ok L so" and "streams_from L so (max p q) k m tks"
    and "t < so_count so" and "p \<le> so_commit so t" and "so_commit so t < q"
    and "\<forall>ev \<in> set (so_events so t). ev_lsn ev \<noteq> ''snapshot''"
    and "\<forall>i < so_count so. i \<noteq> t \<longrightarrow> set (so_events so i) \<inter> set (so_events so t) = {}"
  shows "\<exists>before after args log. snapshot_then_stream L order keep ss sn sv start tks (new_stream conn slot pub flt) []
      = (before @ Exec ''commit'' [] # after @ [StartReplication slot p args], log, Continue)
    \<and> CreateSlot slot ''pgoutput'' \<in> set after \<and> set log \<inter> set (so_events so t) = {}"
proof -
  let ?st = "set_start_lsn l (new_stream conn slot pub flt)"
  have slot: "st_slot ?st = slot"
    by (simp add: set_start_lsn_def new_stream_def)
  obtain pre where steps: "setup = pre @ [StartReplication slot p (plugin_args ?st)]"
    using setup_start [OF assms(3)] assms(1,2) by (auto simp: slot set_start_lsn_context snapshot_fine_def)
  then have create: "CreateSlot slot ''pgoutput'' \<in> set pre"
    using setup_creates_slot [OF assms(3)] by (auto simp: slot)
  have "t < k"
    using assms(7,8,10) by (auto simp: streams_from_def less_max_iff_disj)
  then have "ev \<notin> set (so_events so t)" if "k \<le> i" "i < m" "ev \<in> set (so_events so i)" for i ev
  proof -
    have "i < so_count so" and "i \<noteq> t"
      using assms(7) that(1,2) \<open>t < k\<close> by (simp_all add: streams_from_def)
    with assms(12) that(3) show ?thesis by blast
  qed
  then have "set (concat (map (so_events so) [k..<m])) \<inter> set (so_events so t) = {}"
    by auto
  moreover have "set (planned_events ss cols rows 0 (sn_tables sn)) \<inter> set (so_events so t) = {}"
    using assms(11) planned_events_lsn by blast
  ultimately have "set (planned_events ss cols rows 0 (sn_tables sn)
      @ filter (matches (lib_lower L) flt) (concat (map (so_events so) [k..<m]))) \<inter> set (so_events so t) = {}"
    by auto
  with snapshot_then_stream_keep [OF assms(1,3,6,7), of start] create show ?thesis
    unfolding steps by blast
qed

section \<open>Concrete instances of the properties\<close>

text \<open>The transaction of \<open>sample_source\<close> commits at 69, the snapshot is taken at 16. The slot exists
  already, at 16, or is created at 100.\<close>

definition sample_users :: snapshot where
  "sample_users = new_snapshot ''c'' [''users'']"

abbreviation sample_rows :: "nat change_event list" where
  "sample_rows \<equiv> [snapshot_event ''users'' 5 [''id'' \<mapsto> VCodec 1], snapshot_event ''users'' 5 [''id'' \<mapsto> VCodec 2]]"

lemma sample_snapshot_fine:
  "snapshot_fine sample_snap sample_users (\<lambda>i. [''id'']) (\<lambda>i. [[VCodec 1], [VCodec 2]]) ''0/10''"
  by (simp add: snapshot_fine_def answers_ok_def sample_snap_def sample_users_def new_snapshot_def)

lemma sample_setup:
  assumes "sv = sample_server \<or> sv = sample_server\<lparr>sv_create_slot := Inr ''0/64''\<rparr>"
  shows "\<exists>cmds. run_setup sample_lib sorted_list_of_set sv
    (set_start_lsn ''0/10'' (new_stream ''postgres://h/db'' ''slot'' ''pub'' (new_filter id id [] []))) = (cmds, Continue)"
  using assms
  by (elim disjE) (simp_all add: run_setup_def sample_server_def ensure_publication_def ensure_slot_def get_slot_lsn_def
      choose_start_def Let_def set_start_lsn_def new_stream_def sample_lib_def)

lemma sample_planned:
  "planned_events sample_snap (\<lambda>i. [''id'']) (\<lambda>i. [[VCodec 1], [VCodec 2]]) 0 (sn_tables sample_users) = sample_rows"
  by (simp add: sample_users_def new_snapshot_def table_events_def sample_snap_def)

theorem snapshot_then_stream_log_witness:
  "\<exists>cmds args. snapshot_then_stream sample_lib sorted_list_of_set keep sample_snap sample_users sample_server 0 sample_ticks
      (new_stream ''postgres://h/db'' ''slot'' ''pub'' (new_filter id id [] [])) []
    = (cmds @ [StartReplication ''slot'' 16 args], sample_rows @ [sample_event], Continue)"
proof -
  obtain cmds where run: "run_setup sample_lib sorted_list_of_set sample_server
      (set_start_lsn ''0/10'' (new_stream ''postgres://h/db'' ''slot'' ''pub'' (new_filter id id [] []))) = (cmds, Continue)"
    using sample_setup by blast
  have p: "lib_parse_lsn sample_lib ''0/10'' = Inr 16"
    by (simp add: sample_lib_def)
  have q: "slot_position sample_lib sample_server = Some 16"
    by (simp add: slot_position_def sample_server_def sample_lib_def)
  have sent: "streams_from sample_lib (sample_source 69) (max 16 16) 0 1 sample_ticks"
    using sample_quiet by (simp add: streams_from_def sample_source_def session_of_def)
  from snapshot_then_stream_log [OF sample_snapshot_fine p q run sample_source_ok sent, of 0, unfolded sample_planned]
  show ?thesis
    by (simp add: sample_source_def matches_iff keys_def new_filter_def)
qed

theorem new_slot_leaves_gap_witness:
  "\<exists>cmds log. snapshot_then_stream sample_lib sorted_list_of_set keep sample_snap sample_users
      (sample_server\<lparr>sv_create_slot := Inr ''0/64''\<rparr>) 0 []
      (new_stream ''postgres://h/db'' ''slot'' ''pub'' (new_filter id id [] [])) [] = (cmds, log, Continue)
    \<and> sample_event \<notin> set log"
proof -
  let ?sv = "sample_server\<lparr>sv_create_slot := Inr ''0/64''\<rparr>"
  obtain cmds where run: "run_setup sample_lib sorted_list_of_set ?sv
      (set_start_lsn ''0/10'' (new_stream ''postgres://h/db'' ''slot'' ''pub'' (new_filter id id [] []))) = (cmds, Continue)"
    using sample_setup by blast
  have p: "lib_parse_lsn sample_lib ''0/10'' = Inr 16" "sv_create_slot ?sv = Inr ''0/64''"
      "lib_parse_lsn sample_lib ''0/64'' = Inr 100"
    by (simp_all add: sample_lib_def)
  have sent: "streams_from sample_lib (sample_source 69) (max 16 100) 1 1 []"
    by (simp add: streams_from_def sample_source_def session_of_def received_xlogs_def List.map_filter_def)
  have t: "0 < so_count (sample_source 69)" "16 \<le> so_commit (sample_source 69) 0" "so_commit (sample_source 69) 0 < 100"
      "\<forall>ev \<in> set (so_events (sample_source 69) 0). ev_lsn ev \<noteq> ''snapshot''"
      "\<forall>i < so_count (sample_source 69). i \<noteq> 0 \<longrightarrow>
        set (so_events (sample_source 69) i) \<inter> set (so_events (sample_source 69) 0) = {}"
    by (simp_all add: sample_source_def sample_event_def decimal.simps)
  from new_slot_leaves_gap [OF sample_snapshot_fine p(1) run p(2,3) sample_source_ok sent t, of 0] show ?thesis
    by (auto simp: sample_source_def)
qed

end
