(* ===== verification/Snapshot_Columns.thy ===== *)
theory Snapshot_Columns
  imports Snapshot "HOL-Library.Multiset"
begin

text \<open>
  The columns query of \<open>snapshotTable\<close> (\<open>internal/cdc/snapshot.go\<close>) against a catalog in which more
  than one schema has a table of the name. The server is any that answers this text of a query with
  the catalog's attributes; how SQL reads other texts is not needed.
\<close>

section \<open>What the columns query means\<close>

text \<open>A row of \<open>pg_attribute\<close>, with the schema and the name of its table.\<close>

record attribute =
  at_schema :: string
  at_table :: string
  at_num :: int
  at_name :: string
  at_dropped :: bool

text \<open>What a server answers to one text of a query, on a given catalog: the attributes of every table
  of the name asked for, whatever its schema, in the order of their numbers; among equal numbers
  the order is not specified.\<close>

definition every_schema_query :: string where
  "every_schema_query =
     [CHR 0x0A, CHR 0x09, CHR 0x09] @ ''SELECT a.attname'' @
     [CHR 0x0A, CHR 0x09, CHR 0x09] @ ''FROM pg_attribute a'' @
     [CHR 0x0A, CHR 0x09, CHR 0x09] @ ''JOIN pg_class c ON a.attrelid = c.oid'' @
     [CHR 0x0A, CHR 0x09, CHR 0x09] @ ''JOIN pg_namespace n ON c.relnamespace = n.oid'' @
     [CHR 0x0A, CHR 0x09, CHR 0x09] @ ''WHERE c.relname = $1'' @
     [CHR 0x0A, CHR 0x09, CHR 0x09] @ ''  AND a.attnum > 0'' @
     [CHR 0x0A, CHR 0x09, CHR 0x09] @ ''  AND NOT a.attisdropped'' @
     [CHR 0x0A, CHR 0x09, CHR 0x09] @ ''ORDER BY a.attnum'' @ [CHR 0x0A, CHR 0x09]"

definition selected :: "attribute list \<Rightarrow> string \<Rightarrow> attribute list" where
  "selected cat t = filter (\<lambda>a. at_table a = t \<and> 0 < at_num a \<and> \<not> at_dropped a) cat"

type_synonym columns_answer = "gerr + (gerr + string) list \<times> gerr option"

definition answers_from :: "attribute list \<Rightarrow> (string \<Rightarrow> string list \<Rightarrow> columns_answer) \<Rightarrow> bool" where
  "answers_from cat db \<longleftrightarrow> (\<forall>t. \<exists>as. mset as = mset (selected cat t) \<and> sorted (map at_num as)
     \<and> db every_schema_query [t] = Inr (map Inr (map at_name as), None))"

definition table_attributes :: "string \<Rightarrow> string \<Rightarrow> string list \<Rightarrow> attribute list" where
  "table_attributes schema t names =
     map (\<lambda>i. \<lparr>at_schema = schema, at_table = t, at_num = 1 + int i, at_name = names ! i, at_dropped = False\<rparr>) [0..<length names]"

lemma first_attributes:
  "names \<noteq> [] \<Longrightarrow> filter (\<lambda>a. at_num a = 1) (table_attributes schema t names)
    = [\<lparr>at_schema = schema, at_table = t, at_num = 1, at_name = names ! 0, at_dropped = False\<rparr>]"
  by (simp add: table_attributes_def filter_map comp_def upt_rec [of 0])

text \<open>With a second table of the name, the first two columns are the first columns of both.\<close>

lemma second_column:
  assumes "mset as = mset (table_attributes schema t names) + mset (table_attributes schema' t others)"
    and "sorted (map at_num as)" and "names \<noteq> []" and "others \<noteq> []"
  shows "1 < length as" and "at_name (as ! 1) \<in> {names ! 0, others ! 0}"
proof -
  let ?ones = "filter (\<lambda>a. at_num a = 1) as"
  have ones: "mset ?ones = {#\<lparr>at_schema = schema, at_table = t, at_num = 1, at_name = names ! 0, at_dropped = False\<rparr>,
      \<lparr>at_schema = schema', at_table = t, at_num = 1, at_name = others ! 0, at_dropped = False\<rparr>#}"
    unfolding mset_filter assms(1) filter_union_mset
    unfolding mset_filter [symmetric] first_attributes [OF assms(3)] first_attributes [OF assms(4)] by simp
  then have "length ?ones = 2"
    by (metis size_mset size_add_mset size_empty numeral_2_eq_2)
  then obtain x y zs where as: "as = x # y # zs"
    by (cases as; cases "tl as") (auto split: if_splits)
  have pos: "1 \<le> at_num a" if "a \<in> set as" for a
  proof -
    from that have "a \<in># mset (table_attributes schema t names) + mset (table_attributes schema' t others)"
      unfolding assms(1) [symmetric] by simp
    then show ?thesis by (auto simp: table_attributes_def)
  qed
  have "at_num y = 1"
  proof (rule ccontr)
    assume "at_num y \<noteq> 1"
    then have "filter (\<lambda>a. at_num a = 1) (y # zs) = []"
      using assms(2) pos [of y] by (auto simp: as filter_empty_conv)
    with \<open>length ?ones = 2\<close> show False
      by (simp add: as split: if_splits)
  qed
  then have "y \<in># mset ?ones"
    by (simp add: as)
  then have "at_name y \<in> {names ! 0, others ! 0}"
    unfolding ones by auto
  then show "1 < length as" and "at_name (as ! 1) \<in> {names ! 0, others ! 0}"
    by (simp_all add: as)
qed

lemma row_map_source:
  "row_map cols vals m k = Some v \<Longrightarrow> m k = Some v \<or> (\<exists>i < length vals. i < length cols \<and> cols ! i = k \<and> vals ! i = v)"
proof (induction cols vals m rule: row_map.induct)
  case (3 col cols w vals m)
  have "row_map cols vals (m(col \<mapsto> w)) k = Some v"
    using 3(2) by simp
  from 3(1) [OF this] consider "(m(col \<mapsto> w)) k = Some v"
    | i where "i < length vals" "i < length cols" "cols ! i = k" "vals ! i = v"
    by blast
  then show ?case
  proof cases
    case 1
    then show ?thesis
      by (cases "k = col") (auto intro!: exI [of _ 0])
  next
    case 2
    then show ?thesis
      by (intro disjI2 exI [of _ "Suc i"]) simp
  qed
qed simp_all

section \<open>Property\<close>

text \<open>
  C39. The columns query looks in all schemas. When a second schema has a table of this name, the
  names come interleaved, and the values of a row go under wrong names: whatever the columns of
  both tables are, the second column of the table never gets its own value in the event, as long
  as it is not called like the first column of the other table. The server is any that answers the
  text of the query as the catalog has it.
\<close>

theorem snapshot_mixes_schemas:
  assumes "answers_from cat db"
    and "mset (selected cat t) = mset (table_attributes ''public'' t names) + mset (table_attributes schema t others)"
    and "distinct names" and "2 \<le> length names" and "others \<noteq> []" and "names ! 1 \<noteq> others ! 0"
    and "length vals = length names" and "distinct vals"
  shows "\<exists>row cmds ms. snapshot_table pr (\<lambda>h ev. (h @ [ev], None)) t
      \<lparr>ta_columns = db columns_query [t], ta_rows = Inr ([Inr vals], None), ta_now = stamp\<rparr> []
      = (cmds, [snapshot_event t stamp row], ms, 1, None)
    \<and> row (names ! 1) \<noteq> Some (vals ! 1)"
proof -
  have query: "columns_query = every_schema_query"
    by (simp add: columns_query_def every_schema_query_def)
  obtain as where as: "mset as = mset (selected cat t)" "sorted (map at_num as)"
    and db: "db columns_query [t] = Inr (map Inr (map at_name as), None)"
    using assms(1) unfolding answers_from_def query by blast
  let ?cols = "map at_name as"
  have ne: "names \<noteq> []"
    using assms(4) by auto
  note second = second_column [OF as(1) [unfolded assms(2)] as(2) ne assms(5)]
  have "names ! 0 \<noteq> names ! 1"
    using nth_eq_iff_index_eq [OF assms(3), of 0 1] assms(4) ne by simp
  then have wrong: "?cols ! 1 \<noteq> names ! 1"
    using second assms(6) by auto
  have "row_map ?cols vals Map.empty (names ! 1) \<noteq> Some (vals ! 1)"
  proof
    assume "row_map ?cols vals Map.empty (names ! 1) = Some (vals ! 1)"
    then obtain i where "i < length vals" "?cols ! i = names ! 1" "vals ! i = vals ! 1"
      using row_map_source by fastforce
    with assms(4,7,8) wrong show False
      by (metis Suc_1 Suc_le_lessD nth_eq_iff_index_eq)
  qed
  moreover have "?cols \<noteq> []"
    using second(1) by auto
  ultimately show ?thesis
    by (intro exI [of _ "row_map ?cols vals Map.empty"])
      (simp add: snapshot_table_def db scan_columns_ok [where acc = "[]", simplified] Let_def del: map_map)
qed

section \<open>A concrete instance\<close>

text \<open>\<open>users\<close> in \<open>public\<close> and in \<open>audit\<close>.\<close>

definition sample_catalog :: "attribute list" where
  "sample_catalog = table_attributes ''public'' ''users'' [''id'', ''name''] @ table_attributes ''audit'' ''users'' [''at'']"

definition sample_db :: "string \<Rightarrow> string list \<Rightarrow> columns_answer" where
  "sample_db q args = Inr (map Inr (map at_name (sort_key at_num (selected sample_catalog (hd args)))), None)"

theorem snapshot_mixes_schemas_witness:
  "\<exists>row cmds ms. snapshot_table (\<lambda>r. True) (\<lambda>h ev. (h @ [ev], None)) ''users''
      \<lparr>ta_columns = sample_db columns_query [''users''], ta_rows = Inr ([Inr [VString ''1'', VString ''bob'']], None), ta_now = 5\<rparr> []
      = (cmds, [snapshot_event ''users'' 5 row], ms, 1, None)
    \<and> row ''name'' \<noteq> Some (VString ''bob'')"
proof -
  have "answers_from sample_catalog sample_db"
    unfolding answers_from_def sample_db_def
    by (intro allI exI [of _ "sort_key at_num (selected sample_catalog t)" for t] conjI) simp_all
  moreover have "mset (selected sample_catalog ''users'')
      = mset (table_attributes ''public'' ''users'' [''id'', ''name'']) + mset (table_attributes ''audit'' ''users'' [''at''])"
    by (simp add: sample_catalog_def selected_def table_attributes_def upt_rec)
  ultimately show ?thesis
    using snapshot_mixes_schemas [of sample_catalog sample_db "''users''" "[''id'', ''name'']" "''audit''" "[''at'']"
        "[VString ''1'', VString ''bob'']" "\<lambda>r. True" 5]
    by simp
qed

end
