(* ===== verification/Json_Reader.thy ===== *)
theory Json_Reader
  imports Json
begin

text \<open>
  A consumer of the events: a reader of JSON texts, as RFC 8259 has them, that finds the members of an
  object without knowing their values. It is written independently of the encoding in \<open>Json\<close>, and
  reads back every field of a change event under the name its tag gives
  (\<open>internal/cdc/event.go\<close>).
\<close>

section \<open>The reader\<close>

text \<open>What has been read so far, in front of what is read next.\<close>

definition after :: "bytes \<Rightarrow> (bytes \<times> bytes) option \<Rightarrow> (bytes \<times> bytes) option" where
  "after s x = map_option (\<lambda>(b, r). (s @ b, r)) x"

lemma after_simps [simp]:
  "after s None = None" "after s (Some (b, r)) = Some (s @ b, r)" "after [] x = x" "after s (after t x) = after (s @ t) x"
  by (simp_all add: after_def option.map_comp comp_def split_def option.map_ident)

lemma after_Some: "after s x = Some (b, r) \<longleftrightarrow> (\<exists>b'. x = Some (b', r) \<and> b = s @ b')"
  by (cases x) auto

text \<open>The rest of a string after its opening quote: to the first quote that is not escaped.\<close>

fun string_end :: "bytes \<Rightarrow> (bytes \<times> bytes) option" where
  "string_end [] = None"
| "string_end (c # cs) =
     (if c = CHR 0x22 then Some ([], cs)
      else if c = CHR 0x5C then
        (case cs of [] \<Rightarrow> None | d # ds \<Rightarrow> after [c, d] (string_end ds))
      else after [c] (string_end cs))"

lemma string_end_shorter: "string_end s = Some (b, r) \<Longrightarrow> length r < length s"
proof (induction s arbitrary: b r rule: string_end.induct)
  case (2 c cs)
  then show ?case
    by (auto simp: after_Some less_SucI split: if_splits list.splits)
qed simp

text \<open>The rest of a value, inside \<open>d\<close> brackets: to a comma or closing bracket that is not inside.\<close>

function (sequential) value_end :: "nat \<Rightarrow> bytes \<Rightarrow> (bytes \<times> bytes) option" where
  "value_end d [] = (if d = 0 then Some ([], []) else None)"
| "value_end d (c # cs) =
     (if c = CHR 0x22 then
        (case string_end cs of
           None \<Rightarrow> None
         | Some (b, r) \<Rightarrow> after (c # b @ [c]) (value_end d r))
      else if d = 0 \<and> c \<in> {CHR '','', CHR ''}'', CHR '']''} then Some ([], c # cs)
      else after [c]
        (value_end (if c \<in> {CHR ''{'', CHR ''[''} then Suc d else if c \<in> {CHR ''}'', CHR '']''} then d - 1 else d) cs))"
  by pat_completeness auto
termination
  by (relation "measure (\<lambda>(d, s). length s)") (auto dest: string_end_shorter)

lemma value_end_shorter: "value_end d s = Some (v, r) \<Longrightarrow> length r \<le> length s"
proof (induction d s arbitrary: v r rule: value_end.induct)
  case (2 d c cs)
  show ?case
  proof (cases "c = CHR 0x22")
    case True
    with 2(3) obtain b s1 v1 where s1: "string_end cs = Some (b, s1)" "value_end d s1 = Some (v1, r)"
      by (auto simp: after_Some split: option.splits)
    with 2(1) [OF True s1(1) refl s1(2)] string_end_shorter [OF s1(1)] show ?thesis by simp
  next
    case False
    show ?thesis
    proof (cases "d = 0 \<and> c \<in> {CHR '','', CHR ''}'', CHR '']''}")
      case True
      with 2(3) \<open>c \<noteq> CHR 0x22\<close> show ?thesis by simp
    next
      case outside: False
      from 2(3) obtain v1 where "value_end (if c \<in> {CHR ''{'', CHR ''[''} then Suc d
          else if c \<in> {CHR ''}'', CHR '']''} then d - 1 else d) cs = Some (v1, r)"
        by (auto simp only: value_end.simps if_False False outside after_Some if_not_P)
      with 2(2) [OF False outside] show ?thesis by simp
    qed
  qed
qed (auto split: if_splits)

text \<open>One member: its name, its value's text, and what follows. Then all, to the closing bracket.\<close>

definition read_member :: "bytes \<Rightarrow> ((bytes \<times> bytes) \<times> bytes) option" where
  "read_member s =
     (case s of
        c # cs \<Rightarrow> if c \<noteq> CHR 0x22 then None else do {
          (k, r) \<leftarrow> string_end cs;
          key \<leftarrow> json_unescape k;
          (case r of
             x # xs \<Rightarrow> if x \<noteq> CHR '':'' then None else do { (v, rest) \<leftarrow> value_end 0 xs; Some ((key, v), rest) }
           | [] \<Rightarrow> None) }
      | [] \<Rightarrow> None)"

lemma read_member_shorter:
  assumes "read_member s = Some (m, r)"
  shows "length r < length s"
proof -
  obtain c cs where s: "s = c # cs"
    using assms by (cases s) (simp_all add: read_member_def)
  then obtain k ks where k: "string_end cs = Some (k, ks)"
    using assms by (cases "string_end cs") (auto simp: read_member_def split: if_splits)
  then obtain x xs where ks: "ks = x # xs"
    using assms s by (cases ks) (simp_all add: read_member_def bind_eq_Some_conv split: if_splits)
  obtain v where "value_end 0 xs = Some (v, r)"
    using assms s k ks by (auto simp: read_member_def bind_eq_Some_conv split: if_splits)
  from value_end_shorter [OF this] string_end_shorter [OF k] show ?thesis
    by (simp add: s ks)
qed

function (sequential) read_members :: "bytes \<Rightarrow> ((bytes \<times> bytes) list \<times> bytes) option" where
  "read_members s =
     (case read_member s of
        Some (m, c # r) \<Rightarrow>
          if c = CHR '','' then map_option (map_prod (Cons m) id) (read_members r)
          else if c = CHR ''}'' then Some ([m], r) else None
      | _ \<Rightarrow> None)"
  by pat_completeness auto
termination
  by (relation "measure length") (auto dest: read_member_shorter)

declare read_members.simps [simp del]

definition read_object :: "bytes \<Rightarrow> (bytes \<times> bytes) list option" where
  "read_object s =
     (case s of
        c # cs \<Rightarrow>
          if c \<noteq> CHR ''{'' then None
          else if cs = ''}'' then Some []
          else (case read_members cs of Some (ms, []) \<Rightarrow> Some ms | _ \<Rightarrow> None)
      | [] \<Rightarrow> None)"

definition read_string :: "bytes \<Rightarrow> bytes option" where
  "read_string s =
     (case s of
        c # cs \<Rightarrow> if c = CHR 0x22 then (case string_end cs of Some (b, []) \<Rightarrow> json_unescape b | _ \<Rightarrow> None) else None
      | [] \<Rightarrow> None)"

definition read_number :: "bytes \<Rightarrow> nat option" where
  "read_number s =
     (if s \<noteq> [] \<and> (\<forall>c \<in> set s. 48 \<le> byte_val c \<and> byte_val c \<le> 57)
      then Some (foldl (\<lambda>n c. 10 * n + (byte_val c - 48)) 0 s) else None)"

section \<open>Strings and numbers\<close>

definition string_chunk :: "bytes \<Rightarrow> bool" where
  "string_chunk s \<longleftrightarrow> (\<forall>t. string_end (s @ t) = after s (string_end t))"

lemma string_chunk_append: "string_chunk s \<Longrightarrow> string_chunk t \<Longrightarrow> string_chunk (s @ t)"
  by (simp add: string_chunk_def)

lemma string_chunk_Nil: "string_chunk []"
  by (simp add: string_chunk_def)

lemma string_chunk_plain: "c \<noteq> CHR 0x22 \<Longrightarrow> c \<noteq> CHR 0x5C \<Longrightarrow> string_chunk [c]"
  by (simp add: string_chunk_def)

lemma string_chunk_pair: "string_chunk [CHR 0x5C, d]"
  by (simp add: string_chunk_def)

lemma string_chunk_all: "\<forall>c \<in> set s. c \<noteq> CHR 0x22 \<and> c \<noteq> CHR 0x5C \<Longrightarrow> string_chunk s"
proof (induction s)
  case (Cons c s)
  then show ?case
    using string_chunk_append [OF string_chunk_plain [of c], of s] by simp
qed (rule string_chunk_Nil)

lemma hex_digit_plain:
  assumes "n < 16"
  shows "hex_digit n \<noteq> CHR 0x22" and "hex_digit n \<noteq> CHR 0x5C"
proof -
  have "hex_val (CHR 0x22) = None" "hex_val (CHR 0x5C) = None"
    by (simp_all add: hex_val_def)
  with hex_val_digit [OF assms] show "hex_digit n \<noteq> CHR 0x22" and "hex_digit n \<noteq> CHR 0x5C"
    by auto
qed

lemma string_chunk_u:
  assumes "\<forall>c \<in> set s. c \<noteq> CHR 0x22 \<and> c \<noteq> CHR 0x5C"
  shows "string_chunk (CHR 0x5C # CHR ''u'' # s)"
  using string_chunk_append [OF string_chunk_pair string_chunk_all [OF assms], of "CHR ''u''"] by simp

lemma json_escape_chunk:
  assumes "byte_val c < 128"
  shows "string_chunk (json_escape c)"
proof (cases "json_safe c")
  case True
  then show ?thesis
    by (simp add: json_escape_def) (rule string_chunk_plain, auto simp: json_safe_def)
next
  case False
  have "string_chunk (CHR 0x5C # CHR ''u'' # [CHR ''0'', CHR ''0'', hex_digit (byte_val c div 16), hex_digit (byte_val c mod 16)])"
    using hex_digit_plain [of "byte_val c div 16"] hex_digit_plain [of "byte_val c mod 16"] assms
    by (intro string_chunk_u) simp
  with False show ?thesis
    unfolding json_escape_def by (simp add: string_chunk_pair)
qed

lemma json_body_chunk: "string_chunk (json_body s)"
proof (induction s rule: json_body.induct)
  case (2 c cs)
  show ?case
  proof (cases "byte_val c < 128")
    case True
    then show ?thesis using 2(1) by (simp add: json_escape_chunk string_chunk_append)
  next
    case False
    obtain r n where rn: "decode_rune (c # cs) = (r, n)" by fastforce
    note [simp del] = json_body.simps
    have wide: "string_chunk (take n (c # cs))"
      using decode_rune_high [OF rn False] by (intro string_chunk_all) fastforce
    have marks: "string_chunk (CHR 0x5C # ''ufffd'')" "string_chunk (CHR 0x5C # CHR ''u'' # ''202'' @ [hex_digit (r mod 16)])"
      using hex_digit_plain [of "r mod 16"] by (auto intro!: string_chunk_u)
    consider "r = rune_error \<and> n = 1" | "\<not> (r = rune_error \<and> n = 1)" "r = 8232 \<or> r = 8233"
      | "\<not> (r = rune_error \<and> n = 1)" "\<not> (r = 8232 \<or> r = 8233)"
      by blast
    then show ?thesis
    proof cases
      case 1
      then have "json_body (c # cs) = (CHR 0x5C # ''ufffd'') @ json_body cs"
        using False rn by (simp add: json_body.simps)
      then show ?thesis
        using string_chunk_append [OF marks(1) "2.IH"(2) [OF False rn [symmetric] 1]] by simp
    next
      case 2
      then have "json_body (c # cs) = (CHR 0x5C # CHR ''u'' # ''202'' @ [hex_digit (r mod 16)]) @ json_body (drop (n - 1) cs)"
        using False rn by (simp add: json_body.simps)
      then show ?thesis
        using string_chunk_append [OF marks(2) "2.IH"(3) [OF False rn [symmetric] 2]] by simp
    next
      case 3
      then have "json_body (c # cs) = take n (c # cs) @ json_body (drop (n - 1) cs)"
        using False rn by (simp add: json_body.simps)
      then show ?thesis
        using string_chunk_append [OF wide "2.IH"(4) [OF False rn [symmetric] 3]] by simp
    qed
  qed
qed (simp add: string_chunk_Nil)

lemma string_end_body: "string_end (json_body s @ CHR 0x22 # t) = Some (json_body s, t)"
  using json_body_chunk [of s] by (simp add: string_chunk_def)

lemma json_unescape_json_body: "valid_utf8 s \<Longrightarrow> json_unescape (json_body s) = Some s"
  using json_unescape_body [of s "[]"] by simp

lemma read_json_string: "valid_utf8 s \<Longrightarrow> read_string (json_string s) = Some s"
  using string_end_body [of s "[]"] by (simp add: read_string_def json_string_def json_unescape_json_body)

lemma digits_of_decimal: "c \<in> set (decimal n) \<Longrightarrow> 48 \<le> byte_val c \<and> byte_val c \<le> 57"
proof (induction n rule: decimal.induct)
  case (1 n)
  then show ?case by (subst (asm) decimal.simps) (auto split: if_splits)
qed

lemma read_decimal: "read_number (decimal n) = Some n"
proof -
  have "foldl (\<lambda>n c. 10 * n + (byte_val c - 48)) 0 (decimal n) = n"
  proof (induction n rule: decimal.induct)
    case (1 n)
    then show ?case by (subst decimal.simps) auto
  qed
  then show ?thesis
    using digits_of_decimal by (simp add: read_number_def)
qed

section \<open>Values\<close>

text \<open>A text that a reader takes as one value or part of one, at any depth; and one for which this holds
  inside brackets only.\<close>

definition whole :: "bytes \<Rightarrow> bool" where
  "whole v \<longleftrightarrow> (\<forall>d t. value_end d (v @ t) = after v (value_end d t))"

definition inside :: "bytes \<Rightarrow> bool" where
  "inside v \<longleftrightarrow> (\<forall>d t. value_end (Suc d) (v @ t) = after v (value_end (Suc d) t))"

definition plain_char :: "char \<Rightarrow> bool" where
  "plain_char c \<longleftrightarrow> c \<notin> {CHR 0x22, CHR '','', CHR ''{'', CHR ''}'', CHR ''['', CHR '']''}"

lemma whole_inside: "whole v \<Longrightarrow> inside v"
  by (simp add: whole_def inside_def)

lemma inside_append: "inside u \<Longrightarrow> inside v \<Longrightarrow> inside (u @ v)"
  by (simp add: inside_def)

lemma inside_Nil: "inside []"
  by (simp add: inside_def)

lemma whole_plain: "\<forall>c \<in> set v. plain_char c \<Longrightarrow> whole v"
  by (induction v) (auto simp: whole_def plain_char_def)

lemma inside_comma: "inside '',''"
  by (simp add: inside_def)

lemma whole_json_string: "whole (json_string s)"
  by (simp add: whole_def json_string_def string_end_body)

lemma inside_join: "\<forall>x \<in> set xs. inside x \<Longrightarrow> inside (join '','' xs)"
proof (induction "'',''" xs rule: join.induct)
  case (3 x y ys)
  then show ?case
    using inside_append [OF _ inside_append [OF inside_comma], of x "join '','' (y # ys)"] by simp
qed (simp_all add: inside_Nil)

lemma whole_bracket: "inside v \<Longrightarrow> whole (''{'' @ v @ ''}'')"
  by (simp add: whole_def inside_def)

lemma whole_json_object: "\<forall>m \<in> set ms. inside m \<Longrightarrow> whole (json_object ms)"
  using whole_bracket [OF inside_join] by (simp add: json_object_def)

lemma inside_json_field: "whole v \<Longrightarrow> inside (json_field name v)"
proof -
  assume "whole v"
  moreover have "whole '':''"
    by (rule whole_plain) (simp add: plain_char_def)
  ultimately show ?thesis
    unfolding json_field_def by (intro inside_append whole_inside whole_json_string)
qed

text \<open>What marshals itself gives a JSON value; \<open>encoding/json\<close> checks that.\<close>

definition codec_whole :: "'v json_codec \<Rightarrow> bool" where
  "codec_whole J \<longleftrightarrow> (\<forall>v b. jc_value J v = Inr b \<longrightarrow> whole b) \<and> (\<forall>t b. jc_time J t = Inr b \<longrightarrow> whole b)"

lemma whole_json_value: "codec_whole J \<Longrightarrow> json_value J v = Inr b \<Longrightarrow> whole b"
  by (auto simp: json_value_def codec_whole_def whole_json_string whole_plain plain_char_def split: val.splits)

lemma whole_decimal: "whole (decimal n)"
  using digits_of_decimal by (intro whole_plain) (fastforce simp: plain_char_def)

section \<open>Objects\<close>

lemma value_end_whole: "whole v \<Longrightarrow> c \<in> {CHR '','', CHR ''}''} \<Longrightarrow> value_end 0 (v @ c # t) = Some (v, c # t)"
  by (auto simp: whole_def)

lemma read_member_field:
  "valid_utf8 k \<Longrightarrow> whole v \<Longrightarrow> c \<in> {CHR '','', CHR ''}''} \<Longrightarrow>
    read_member (json_field k v @ c # t) = Some ((k, v), c # t)"
  using value_end_whole [of v c t]
  by (simp add: read_member_def json_field_def json_string_def string_end_body json_unescape_json_body)

lemma read_members_fields:
  assumes "kvs \<noteq> []" and "\<forall>(k, v) \<in> set kvs. valid_utf8 k \<and> whole v"
  shows "read_members (join '','' (map (\<lambda>(k, v). json_field k v) kvs) @ ''}'' @ t) = Some (kvs, t)"
  using assms
proof (induction kvs rule: induct_list012)
  case (2 kv)
  obtain k v where "kv = (k, v)" by fastforce
  with 2 show ?case
    using read_member_field [of k v "CHR ''}''" t] by (subst read_members.simps) simp
next
  case (3 kv kv' kvs)
  obtain k v where kv: "kv = (k, v)" by fastforce
  let ?rest = "join '','' (map (\<lambda>(k, v). json_field k v) (kv' # kvs)) @ ''}'' @ t"
  have "read_member (json_field k v @ CHR '','' # ?rest) = Some ((k, v), CHR '','' # ?rest)"
    using 3(4) kv by (intro read_member_field) simp_all
  moreover have "read_members ?rest = Some (kv' # kvs, t)"
    using 3 by simp
  ultimately show ?case
    by (subst read_members.simps) (simp add: kv)
qed simp

lemma read_json_object:
  assumes "\<forall>(k, v) \<in> set kvs. valid_utf8 k \<and> whole v"
  shows "read_object (json_object (map (\<lambda>(k, v). json_field k v) kvs)) = Some kvs"
proof (cases "kvs = []")
  case False
  then obtain k v kvs' where kvs: "kvs = (k, v) # kvs'" by (cases kvs) auto
  have "hd (join '','' (map (\<lambda>(k, v). json_field k v) kvs) @ ''}'') = CHR 0x22"
    unfolding kvs by (cases kvs') (simp_all add: json_field_def json_string_def)
  then have "join '','' (map (\<lambda>(k, v). json_field k v) kvs) @ ''}'' \<noteq> ''}''"
    by auto
  with read_members_fields [OF False assms, of "[]"] show ?thesis
    by (simp add: read_object_def json_object_def)
qed (simp add: read_object_def json_object_def)

section \<open>Rows and events\<close>

text \<open>A row as Go has it: finitely many columns; and its texts are valid UTF-8.\<close>

definition row_texts_ok :: "'v row option \<Rightarrow> bool" where
  "row_texts_ok m \<longleftrightarrow> (\<forall>row. m = Some row \<longrightarrow> finite (dom row) \<and> (\<forall>k \<in> dom row. valid_utf8 k)
     \<and> (\<forall>s. VString s \<in> ran row \<longrightarrow> valid_utf8 s))"

definition event_texts_ok :: "'v change_event \<Rightarrow> bool" where
  "event_texts_ok ev \<longleftrightarrow> valid_utf8 (ev_action ev) \<and> valid_utf8 (ev_schema ev) \<and> valid_utf8 (ev_table ev)
     \<and> valid_utf8 (ev_lsn ev) \<and> row_texts_ok (ev_new ev) \<and> row_texts_ok (ev_old ev)"

text \<open>A member that holds a row: missing for no row or no columns, otherwise an object with the
  columns as its names, each with the text of its value, which reads back when it is a string.\<close>

definition holds_row :: "'v json_codec \<Rightarrow> bytes option \<Rightarrow> 'v row option \<Rightarrow> bool" where
  "holds_row J txt m \<longleftrightarrow>
     (case m of
        None \<Rightarrow> txt = None
      | Some row \<Rightarrow>
          if dom row = {} then txt = None
          else (\<exists>t kvs. txt = Some t \<and> read_object t = Some kvs \<and> map fst kvs = sorted_list_of_set (dom row)
            \<and> (\<forall>k v. row k = Some v \<longrightarrow> (\<exists>b. map_of kvs k = Some b \<and> json_value J v = Inr b
                 \<and> (\<forall>s. v = VString s \<longrightarrow> read_string b = Some s)))))"

lemma holds_row_string:
  assumes "holds_row J txt (Some row)" and "row k = Some (VString s)"
  shows "\<exists>t kvs. txt = Some t \<and> read_object t = Some kvs \<and> Option.bind (map_of kvs k) read_string = Some s"
proof -
  have "dom row \<noteq> {}"
    using assms(2) by auto
  then obtain t kvs where t: "txt = Some t" "read_object t = Some kvs"
    and "\<forall>k v. row k = Some v \<longrightarrow> (\<exists>b. map_of kvs k = Some b \<and> json_value J v = Inr b
      \<and> (\<forall>s. v = VString s \<longrightarrow> read_string b = Some s))"
    using assms(1) by (auto simp: holds_row_def)
  with assms(2) have "\<exists>b. map_of kvs k = Some b \<and> read_string b = Some s"
    by blast
  with t show ?thesis by auto
qed

lemma map_ok_fields:
  assumes "map_ok (\<lambda>k. case row k of None \<Rightarrow> Inr [] | Some v \<Rightarrow> bind_ok (json_value J v) (\<lambda>b. Inr (json_field k b))) ks = Inr ms"
    and "set ks \<subseteq> dom row"
  shows "\<exists>kvs. ms = map (\<lambda>(k, v). json_field k v) kvs \<and> map fst kvs = ks
    \<and> (\<forall>(k, b) \<in> set kvs. \<exists>v. row k = Some v \<and> json_value J v = Inr b)"
  using assms
proof (induction ks arbitrary: ms)
  case (Cons k ks)
  from Cons.prems(2) obtain v where v: "row k = Some v" by auto
  from Cons.prems(1) v obtain b ms' where b: "json_value J v = Inr b" and ms: "ms = json_field k b # ms'"
    and rest: "map_ok (\<lambda>k. case row k of None \<Rightarrow> Inr [] | Some v \<Rightarrow> bind_ok (json_value J v) (\<lambda>b. Inr (json_field k b))) ks = Inr ms'"
    by (auto simp: bind_ok_Inr)
  from Cons.IH [OF rest] Cons.prems(2) obtain kvs where "ms' = map (\<lambda>(k, v). json_field k v) kvs" "map fst kvs = ks"
    "\<forall>(k, b) \<in> set kvs. \<exists>v. row k = Some v \<and> json_value J v = Inr b"
    by auto
  with v b ms show ?case
    by (intro exI [of _ "(k, b) # kvs"]) auto
qed simp

lemma omitempty_holds_row:
  assumes "json_omitempty J name m = Inr ms" and "codec_whole J" and "row_texts_ok m"
  shows "\<exists>txt. ms = (case txt of None \<Rightarrow> [] | Some t \<Rightarrow> [json_field name t]) \<and> (\<forall>t. txt = Some t \<longrightarrow> whole t) \<and> holds_row J txt m"
proof (cases m)
  case None
  with assms(1) show ?thesis
    by (intro exI [of _ None]) (simp add: json_omitempty_def holds_row_def)
next
  case (Some row)
  then have fin: "finite (dom row)" and utf8: "\<forall>k \<in> dom row. valid_utf8 k" "\<forall>s. VString s \<in> ran row \<longrightarrow> valid_utf8 s"
    using assms(3) by (simp_all add: row_texts_ok_def)
  show ?thesis
  proof (cases "dom row = {}")
    case True
    with assms(1) Some show ?thesis
      by (intro exI [of _ None]) (simp add: json_omitempty_def holds_row_def)
  next
    case False
    then obtain b where row: "json_row J row = Inr b" and ms: "ms = [json_field name b]"
      using assms(1) Some fin by (auto simp: json_omitempty_def bind_ok_Inr)
    then obtain fs where fs: "b = json_object fs" "map_ok (\<lambda>k. case row k of None \<Rightarrow> Inr []
        | Some v \<Rightarrow> bind_ok (json_value J v) (\<lambda>b. Inr (json_field k b))) (sorted_list_of_set (dom row)) = Inr fs"
      by (auto simp: json_row_def bind_ok_Inr)
    obtain kvs where kvs: "fs = map (\<lambda>(k, v). json_field k v) kvs" "map fst kvs = sorted_list_of_set (dom row)"
      and vals: "\<forall>(k, b) \<in> set kvs. \<exists>v. row k = Some v \<and> json_value J v = Inr b"
      using map_ok_fields [OF fs(2)] fin by auto
    have parts: "\<forall>(k, v) \<in> set kvs. valid_utf8 k \<and> whole v"
      using vals utf8(1) whole_json_value [OF assms(2)] by fastforce
    have "\<exists>b. map_of kvs k = Some b \<and> json_value J v = Inr b \<and> (\<forall>s. v = VString s \<longrightarrow> read_string b = Some s)"
      if "row k = Some v" for k v
    proof -
      have "k \<in> set (map fst kvs)"
        using kvs(2) fin that by auto
      then obtain b where b: "map_of kvs k = Some b"
        by (metis map_of_eq_None_iff not_None_eq set_map)
      then have "json_value J v = Inr b"
        using vals that map_of_SomeD by fastforce
      moreover have "read_string b = Some s" if "v = VString s" for s
        using calculation that utf8(2) \<open>row k = Some v\<close> read_json_string
        by (auto simp: json_value_def ran_def)
      ultimately show ?thesis
        using b by blast
    qed
    moreover have "read_object b = Some kvs"
      unfolding fs(1) kvs(1) by (rule read_json_object [OF parts])
    moreover have "whole b"
      unfolding fs(1) kvs(1) by (intro whole_json_object ballI) (use parts inside_json_field in auto)
    ultimately show ?thesis
      using Some False kvs(2) ms by (intro exI [of _ "Some b"]) (auto simp: holds_row_def)
  qed
qed

section \<open>Property\<close>

text \<open>
  C30. A change event can be read back from its JSON text, whatever quotes, control characters, brackets
  and commas are in it: a reader that knows nothing of events finds one object with a member for
  every field of \<open>ChangeEvent\<close>, under its tag. Action, schema, table, LSN and transaction number are
  read exactly; \<open>new\<close> and \<open>old\<close> are each missing when there is no row or it has no columns, and
  otherwise an object with exactly the row's columns, each with the text of its value. The texts are valid
  UTF-8, and what pgtype's and \<open>time\<close>'s types marshal to are JSON values.
\<close>

theorem event_json_roundtrip:
  assumes "json_event J ev = Inr b" and "codec_whole J" and "event_texts_ok ev"
  shows "\<exists>ms. read_object b = Some ms
    \<and> Option.bind (map_of ms ''action'') read_string = Some (ev_action ev)
    \<and> Option.bind (map_of ms ''schema'') read_string = Some (ev_schema ev)
    \<and> Option.bind (map_of ms ''table'') read_string = Some (ev_table ev)
    \<and> holds_row J (map_of ms ''new'') (ev_new ev) \<and> holds_row J (map_of ms ''old'') (ev_old ev)
    \<and> (\<exists>stamp. jc_time J (ev_timestamp ev) = Inr stamp \<and> map_of ms ''timestamp'' = Some stamp)
    \<and> Option.bind (map_of ms ''lsn'') read_string = Some (ev_lsn ev)
    \<and> Option.bind (map_of ms ''xid'') read_number = Some (unat (ev_xid ev))"
proof -
  obtain new_ms old_ms stamp where new: "json_omitempty J ''new'' (ev_new ev) = Inr new_ms"
    and old: "json_omitempty J ''old'' (ev_old ev) = Inr old_ms" and stamp: "jc_time J (ev_timestamp ev) = Inr stamp"
    and b: "b = json_object
         ([json_field ''action'' (json_string (ev_action ev)),
           json_field ''schema'' (json_string (ev_schema ev)),
           json_field ''table'' (json_string (ev_table ev))] @ new_ms @ old_ms @
          [json_field ''timestamp'' stamp, json_field ''lsn'' (json_string (ev_lsn ev)),
           json_field ''xid'' (decimal (unat (ev_xid ev)))])"
    using assms(1) unfolding json_event_def bind_ok_Inr by blast
  have texts: "valid_utf8 (ev_action ev)" "valid_utf8 (ev_schema ev)" "valid_utf8 (ev_table ev)" "valid_utf8 (ev_lsn ev)"
    "row_texts_ok (ev_new ev)" "row_texts_ok (ev_old ev)"
    using assms(3) by (simp_all add: event_texts_ok_def)
  obtain n where n: "new_ms = (case n of None \<Rightarrow> [] | Some t \<Rightarrow> [json_field ''new'' t])" "\<forall>t. n = Some t \<longrightarrow> whole t"
      "holds_row J n (ev_new ev)"
    using omitempty_holds_row [OF new assms(2) texts(5)] by blast
  obtain o' where o: "old_ms = (case o' of None \<Rightarrow> [] | Some t \<Rightarrow> [json_field ''old'' t])" "\<forall>t. o' = Some t \<longrightarrow> whole t"
      "holds_row J o' (ev_old ev)"
    using omitempty_holds_row [OF old assms(2) texts(6)] by blast
  let ?opt = "\<lambda>name m. case m of None \<Rightarrow> [] | Some t \<Rightarrow> [(name, t)]"
  let ?kvs = "[(''action'', json_string (ev_action ev)), (''schema'', json_string (ev_schema ev)),
      (''table'', json_string (ev_table ev))] @ ?opt ''new'' n @ ?opt ''old'' o' @
      [(''timestamp'', stamp), (''lsn'', json_string (ev_lsn ev)), (''xid'', decimal (unat (ev_xid ev)))]"
  have ascii: "valid_utf8 ''action''" "valid_utf8 ''schema''" "valid_utf8 ''table''" "valid_utf8 ''new''" "valid_utf8 ''old''"
    "valid_utf8 ''timestamp''" "valid_utf8 ''lsn''" "valid_utf8 ''xid''"
    by (simp_all add: rune_error_def)
  have "whole stamp"
    using assms(2) stamp by (auto simp: codec_whole_def)
  then have parts: "\<forall>(k, v) \<in> set ?kvs. valid_utf8 k \<and> whole v"
    using n(2) o(2) by (cases n; cases o') (simp_all del: valid_utf8.simps add: ascii whole_json_string whole_decimal)
  have "b = json_object (map (\<lambda>(k, v). json_field k v) ?kvs)"
    by (cases n; cases o') (simp_all add: b n(1) o(1))
  with read_json_object [OF parts] have "read_object b = Some ?kvs"
    by simp
  with n(3) o(3) texts stamp show ?thesis
    by (intro exI [of _ ?kvs]) (cases n; cases o'; simp add: read_json_string read_decimal)
qed

section \<open>A concrete instance\<close>

text \<open>A table and a value that are full of what JSON escapes.\<close>

theorem event_json_roundtrip_witness:
  "\<exists>b ms t kvs. json_event \<lparr>jc_value = (\<lambda>v :: nat. Inr (decimal v)), jc_time = (\<lambda>t. Inr (json_string ''now''))\<rparr>
      \<lparr>ev_action = ''INSERT'', ev_schema = ''public'', ev_table = [CHR 0x22, CHR '','', CHR ''}'', CHR 0x0A],
       ev_new = Some [''id'' \<mapsto> VString [CHR 0x5C, CHR ''<'']], ev_old = None, ev_timestamp = 1, ev_lsn = ''0/10'', ev_xid = 7\<rparr> = Inr b
    \<and> read_object b = Some ms
    \<and> Option.bind (map_of ms ''table'') read_string = Some [CHR 0x22, CHR '','', CHR ''}'', CHR 0x0A]
    \<and> map_of ms ''new'' = Some t \<and> read_object t = Some kvs
    \<and> Option.bind (map_of kvs ''id'') read_string = Some [CHR 0x5C, CHR ''<'']
    \<and> map_of ms ''old'' = None \<and> Option.bind (map_of ms ''xid'') read_number = Some 7"
proof -
  let ?J = "\<lparr>jc_value = (\<lambda>v :: nat. Inr (decimal v)), jc_time = (\<lambda>t. Inr (json_string ''now''))\<rparr>"
  let ?ev = "\<lparr>ev_action = ''INSERT'', ev_schema = ''public'', ev_table = [CHR 0x22, CHR '','', CHR ''}'', CHR 0x0A],
       ev_new = Some [''id'' \<mapsto> VString [CHR 0x5C, CHR ''<'']], ev_old = None, ev_timestamp = 1, ev_lsn = ''0/10'', ev_xid = 7\<rparr> :: nat change_event"
  obtain b where b: "json_event ?J ?ev = Inr b"
    by (simp add: json_event_def json_omitempty_def json_row_def json_value_def bind_ok_def)
  have codec: "codec_whole ?J"
    by (auto simp: codec_whole_def whole_decimal whole_json_string)
  have texts: "event_texts_ok ?ev"
    by (simp add: event_texts_ok_def row_texts_ok_def rune_error_def)
  obtain ms where ms: "read_object b = Some ms"
      "Option.bind (map_of ms ''table'') read_string = Some (ev_table ?ev)"
      "Option.bind (map_of ms ''xid'') read_number = Some (unat (ev_xid ?ev))"
    and rows: "holds_row ?J (map_of ms ''new'') (ev_new ?ev)" "holds_row ?J (map_of ms ''old'') (ev_old ?ev)"
    using event_json_roundtrip [OF b codec texts] by (elim exE conjE) (rule that; assumption)
  from rows(1) obtain t kvs where "map_of ms ''new'' = Some t" "read_object t = Some kvs"
      "Option.bind (map_of kvs ''id'') read_string = Some [CHR 0x5C, CHR ''<'']"
    using holds_row_string [of ?J "map_of ms ''new''" "[''id'' \<mapsto> VString [CHR 0x5C, CHR ''<'']]" "''id''"]
    by (simp only: change_event.simps) auto
  moreover have "map_of ms ''old'' = None"
    using rows(2) by (simp add: holds_row_def)
  ultimately show ?thesis
    using b ms by (intro exI [of _ b] exI [of _ ms] exI [of _ t] exI [of _ kvs]) simp
qed

end
