(* ===== verification/Test_Servers.thy ===== *)
theory Test_Servers
  imports Decorators
begin

text \<open>
  The two HTTP servers the sinks are tried against: \<open>cmd/flaky-server/main.go\<close> and
  \<open>cmd/webhook-test-server/main.go\<close>: the handlers as functions from a request to a response, and
  each \<open>main\<close> as the answers to a sequence of requests, in the order in which they are counted.
  Logging and the port numbers are left out. Paths are taken to be clean: others the mux of
  \<open>net/http\<close> redirects.
\<close>

section \<open>The flaky server\<close>

text \<open>The handler: the counter after the request, the status and the body.\<close>

definition flaky_handler :: "nat \<Rightarrow> bytes \<Rightarrow> nat \<times> nat \<times> bytes" where
  "flaky_handler served request =
     (let n = served + 1
      in if n \<le> 2 then (n, 500, ''simulated failure #'' @ decimal n) else (n, 200, []))"

text \<open>The status of the answer to each request of a sequence, from a given count.\<close>

fun flaky_statuses :: "nat \<Rightarrow> bytes list \<Rightarrow> nat list" where
  "flaky_statuses served [] = []"
| "flaky_statuses served (req # reqs) =
     (case flaky_handler served req of (served', status, response) \<Rightarrow> status # flaky_statuses served' reqs)"

lemma flaky_statuses_nth:
  "n < length reqs \<Longrightarrow> flaky_statuses served reqs ! n = (if served + n < 2 then 500 else 200)"
proof (induction reqs arbitrary: served n)
  case (Cons req reqs)
  then show ?case by (cases n) (auto simp: flaky_handler_def Let_def)
qed simp

lemma length_flaky_statuses [simp]: "length (flaky_statuses served reqs) = length reqs"
  by (induction reqs arbitrary: served) (auto simp: flaky_handler_def Let_def)

text \<open>The mux has the one pattern \<open>/events\<close>. \<open>ListenAndServe\<close> gives an error when it cannot listen, and
  \<open>log.Fatal\<close> ends the process with it; otherwise requests are answered.\<close>

datatype 'a main_outcome = Fatal gerr | Answered "'a list"

definition not_found :: "nat \<times> bytes" where
  "not_found = (404, ''404 page not found'' @ [CHR 0x0A])"

fun flaky_serve :: "nat \<Rightarrow> (string \<times> bytes) list \<Rightarrow> (nat \<times> bytes) list" where
  "flaky_serve served [] = []"
| "flaky_serve served ((path, body) # reqs) =
     (if path = ''/events''
      then (case flaky_handler served body of (served', response) \<Rightarrow> response # flaky_serve served' reqs)
      else not_found # flaky_serve served reqs)"

definition flaky_main :: "gerr option \<Rightarrow> (string \<times> bytes) list \<Rightarrow> (nat \<times> bytes) main_outcome" where
  "flaky_main listen_result reqs =
     (case listen_result of Some e \<Rightarrow> Fatal e | None \<Rightarrow> Answered (flaky_serve 0 reqs))"

section \<open>The webhook test server\<close>

text \<open>\<open>json.Unmarshal\<close> into a raw message and \<open>MarshalIndent\<close> are the parameter \<open>pretty\<close>: the
  indented text of a body that is JSON. The result is what is printed and the status. The line
  has two dashes of three bytes on either side.\<close>

definition dashes :: bytes where
  "dashes = concat (replicate 2 [byte_of 226, byte_of 148, byte_of 128])"

definition webhook_test_handler ::
    "(bytes \<Rightarrow> bytes option) \<Rightarrow> (string \<times> string) list \<Rightarrow> bytes \<Rightarrow> bytes \<times> nat" where
  "webhook_test_handler pretty headers body =
     (let header = (\<lambda>name. case map_of headers name of None \<Rightarrow> [] | Some v \<Rightarrow> v)
      in case pretty body of
           None \<Rightarrow> ([], 400)
         | Some formatted \<Rightarrow>
             (dashes @ '' '' @ header ''X-PGCDC-Action'' @ '' '' @ header ''X-PGCDC-Table'' @ ''.'' @ [] @ '' ''
                @ dashes @ [CHR 0x0A] @ formatted @ [CHR 0x0A, CHR 0x0A], 200))"

text \<open>What is printed for each request, and the status it gets.\<close>

definition webhook_test_main ::
    "(bytes \<Rightarrow> bytes option) \<Rightarrow> gerr option \<Rightarrow> (string \<times> (string \<times> string) list \<times> bytes) list
      \<Rightarrow> (bytes \<times> nat) main_outcome" where
  "webhook_test_main pretty listen_result reqs =
     (case listen_result of
        Some e \<Rightarrow> Fatal e
      | None \<Rightarrow> Answered (map (\<lambda>(path, headers, body).
          if path = ''/events'' then webhook_test_handler pretty headers body else ([], fst not_found)) reqs))"

section \<open>Properties\<close>

text \<open>
  The flaky server counts requests for events only: the answer to a request is 404 for another
  path, and otherwise 500 or 200 by whether fewer than two requests for events came before it.
\<close>

theorem flaky_main_statuses:
  assumes "n < length reqs"
  shows "\<exists>answers. flaky_main None reqs = Answered answers \<and> length answers = length reqs
    \<and> fst (answers ! n) = (if fst (reqs ! n) \<noteq> ''/events'' then 404
        else if length (filter (\<lambda>r. fst r = ''/events'') (take n reqs)) < 2 then 500 else 200)"
proof -
  let ?seen = "\<lambda>n reqs :: (string \<times> bytes) list. length (filter (\<lambda>r. fst r = ''/events'') (take n reqs))"
  have "fst (flaky_serve served reqs ! n) = (if fst (reqs ! n) \<noteq> ''/events'' then 404
      else if served + ?seen n reqs < 2 then 500 else 200)" for served
    using assms
  proof (induction served reqs arbitrary: n rule: flaky_serve.induct)
    case (2 served path body reqs)
    then show ?case
      by (cases n) (auto simp: flaky_handler_def not_found_def Let_def)
  qed simp
  moreover have "length (flaky_serve served reqs) = length reqs" for served
    by (induction served reqs rule: flaky_serve.induct) (auto split: prod.split)
  ultimately show ?thesis
    by (simp add: flaky_main_def)
qed

theorem flaky_main_statuses_witness:
  "\<exists>answers. flaky_main None [(''/events'', []), (''/'', []), (''/events'', []), (''/events'', [])] = Answered answers
    \<and> fst (answers ! 3) = 200"
  using flaky_main_statuses [of 3 "[(''/events'', []), (''/'', []), (''/events'', []), (''/events'', [])]"]
  by (auto simp: numeral_3_eq_3)

text \<open>
  The webhook test server accepts what the webhook sink sends, and prints the table of the event
  with a stray dot behind it.
\<close>

theorem webhook_test_server_prints:
  assumes "pretty body = Some formatted"
  shows "webhook_test_main pretty None [(''/events'', event_headers ev, body)] = Answered
    [(dashes @ '' '' @ ev_action ev @ '' '' @ ev_schema ev @ ''.'' @ ev_table ev @ ''. '' @ dashes @ [CHR 0x0A]
        @ formatted @ [CHR 0x0A, CHR 0x0A], 200)]"
  using assms by (simp add: webhook_test_main_def webhook_test_handler_def event_headers_def)

theorem webhook_test_server_prints_witness:
  "webhook_test_main Some None [(''/events'', event_headers (row_event_of ''INSERT'' None None), ''{}'')] = Answered
    [(dashes @ '' INSERT public.users. '' @ dashes @ [CHR 0x0A] @ ''{}'' @ [CHR 0x0A, CHR 0x0A], 200)]"
  using webhook_test_server_prints [of Some "''{}''" "''{}''" "row_event_of ''INSERT'' None None"]
  by (simp add: row_event_of_def)

text \<open>
  Against the flaky server, a webhook with the default retry settings delivers its first
  event at the third attempt: it gives \<open>nil\<close>, has sent the same request three times, and has
  waited twice in between, 100 and 200 milliseconds times their jitter.
\<close>

theorem default_retry_beats_flaky_server:
  assumes "json_event J ev = Inr body" and "wh_url_error s = None" and "\<forall>n. \<not> w_cancelled w n"
    and "w_posts w = []" and "w_sleeps w = []" and "3 \<le> length reqs"
    and "\<forall>n < length reqs. w_http w n = Inr (flaky_statuses 0 reqs ! n)"
  shows "\<exists>w'. retry_deliver convert (webhook_retry J s) ev w = Some (w', None)
    \<and> w_posts w' = replicate 3 (request_for s ev body)
    \<and> w_sleeps w' = [wait_time convert (webhook_retry J s) 0 (w_rand w 0), wait_time convert (webhook_retry J s) 1 (w_rand w 1)]
    \<and> backoff convert (webhook_retry J s) 0 = 100 * millisecond \<and> backoff convert (webhook_retry J s) 1 = 200 * millisecond"
proof -
  let ?r = "webhook_retry J s"
  have len: "0 < length reqs" "1 < length reqs" "2 < length reqs"
    using assms(6) by linarith+
  have "w_http w 0 = Inr 500" "w_http w 1 = Inr 500" "w_http w 2 = Inr 200"
    using assms(7) len by (simp_all add: flaky_statuses_nth)
  then have fail: "\<forall>i < 2. \<not> answered_ok w (length (w_posts w) + i)" and ok: "answered_ok w 2"
    by (auto simp: answered_ok_def assms(4) less_2_cases_iff)
  have five: "[0..<nat (rt_max_attempts ?r)] = [0..<0 + 2] @ [2, 3, 4]"
    by (simp add: upt_rec)
  obtain w1 last1 where run: "retry_loop convert ?r ev ([0..<0 + 2] @ [2, 3, 4]) None w = retry_loop convert ?r ev [2, 3, 4] last1 w1"
    and w1: "w_posts w1 = w_posts w @ replicate 2 (request_for s ev body)" "w_http w1 = w_http w"
      "w_sleeps w1 = w_sleeps w @ map (\<lambda>i. wait_time convert ?r (0 + i) (w_rand w (length (w_sleeps w) + i))) [0..<2]"
    using retry_loop_webhook [OF webhook_retry(1) assms(1-3) fail, of convert 0 "[2, 3, 4]" None] by blast
  have "answered_ok w1 (length (w_posts w1))"
    using ok w1 assms(4) by (simp add: answered_ok_def numeral_2_eq_2)
  then have "webhook_deliver J s ev w1 = Some (w1\<lparr>w_posts := w_posts w1 @ [request_for s ev body]\<rparr>, None)"
    using webhook_deliver_cases [OF assms(1,2), of w1] by auto
  moreover have "backoff convert ?r 0 = 100 * millisecond" "backoff convert ?r 1 = 200 * millisecond"
    by (simp_all add: backoff_def to_duration_def float_round_small millisecond_def)
  ultimately show ?thesis
    unfolding retry_deliver_def five run using w1 assms(4,5)
    by (simp add: webhook_sink_def measure_as_def numeral_3_eq_3 numeral_2_eq_2 upt_rec)
qed

theorem default_retry_beats_flaky_server_witness:
  "\<exists>w'. retry_deliver id (webhook_retry sample_codec sample_hook) (row_event_of ''INSERT'' None None)
      (sample_world\<lparr>w_http := (\<lambda>n. Inr (if n < 2 then 500 else 200))\<rparr>) = Some (w', None) \<and> length (w_posts w') = 3"
proof -
  let ?w = "sample_world\<lparr>w_http := (\<lambda>n. Inr (if n < 2 then 500 else 200))\<rparr>"
  obtain body where body: "json_event sample_codec (row_event_of ''INSERT'' None None) = Inr body"
    using plain_event_json by blast
  have w: "wh_url_error sample_hook = None" "\<forall>n. \<not> w_cancelled ?w n" "w_posts ?w = []" "w_sleeps ?w = []"
    "3 \<le> length (replicate 3 body)" "\<forall>n < length (replicate 3 body). w_http ?w n = Inr (flaky_statuses 0 (replicate 3 body) ! n)"
    by (simp_all add: sample_hook_def sample_world_def flaky_statuses_nth del: replicate.simps)
  from default_retry_beats_flaky_server [OF body w, of id] show ?thesis by auto
qed

end
