(* ===== verification/Spec2Isabelle.thy ===== *)
theory Spec2Isabelle
  imports Proxy_Run Proxy_Conversation Proxy_Transactions Event_Typing Batch_Liveness Snapshot_Stream
    Snapshot_Columns Json_Reader Test_Servers
begin

text \<open>
  waltap: verification of the change data capture pipeline (\<open>internal/cdc\<close>,
  \<open>internal/sink\<close>, \<open>internal/metrics\<close>) and of the proxy that splits reads from writes
  (\<open>internal/proxy\<close>). All paths are below \<open>src/\<close>.

  \<^bold>\<open>The program.\<close> A stream reads the write-ahead log of a PostgreSQL database through a
  replication slot, decodes each \<open>pgoutput\<close> message into a change event, drops the events the
  filter does not want and hands the others to a handler, which is a chain of sinks: decorators
  (metrics, retry, batching) around a destination (webhook, stdout, Kafka), with a dead-letter
  queue for events the retries give up on. After each message it may tell the server how far it
  has read. A snapshot gives the handler the rows that exist before the stream starts. The
  proxy speaks the PostgreSQL wire protocol to a client, classifies every statement, keeps
  whether the session is in a transaction, runs the statement on the pool of the primary or of
  the replica and relays the result.

  \<^bold>\<open>Theories.\<close>
  \<^item> \<open>Go_Prelude\<close>, \<open>Go_Strings\<close>: bytes, errors, panics, big-endian words; the functions of
    \<open>strings\<close>, \<open>unicode\<close> and \<open>unicode/utf8\<close> the program calls.
  \<^item> \<open>Classifier\<close> (\<open>proxy/classifier.go\<close>), \<open>Wire\<close> (the message builders and readers of
    \<open>proxy/proxy.go\<close>), \<open>Proxy\<close> (\<open>handleClient\<close>, \<open>executeAndRelay\<close>), \<open>Proxy_Loop\<close> (a query's
    reply, the loop against the routing, the handshake), \<open>Proxy_Run\<close>
    (\<open>NewProxy\<close>, \<open>ListenAndRun\<close>, \<open>Run\<close>), \<open>Proxy_Conversation\<close> (what a client sees of the
    message loop), \<open>Proxy_Sessions\<close> (the goroutines of many
    connections, turn by turn in any order) and \<open>Proxy_Transactions\<close> (the same statements on
    the connections of a pool). The state of a connection is the record
    \<open>session\<close> (\<open>inTransaction\<close>, \<open>txnFailed\<close>), what has been sent and what is left to read;
    the two databases are an abstract state that every query may change.
  \<^item> \<open>Event_Filter\<close> (\<open>cdc/event.go\<close>, \<open>cdc/filter.go\<close>), \<open>Wal_Stream\<close> (\<open>cdc/stream.go\<close>:
    \<open>decodeTuple\<close>, \<open>processMessage\<close>, \<open>deliverIfMatch\<close>, \<open>sendAck\<close>, \<open>messageLoop\<close>),
    \<open>Wal_Acks\<close> (what is acknowledged), \<open>Event_Typing\<close> (what a handler can rely on),
    \<open>Stream_Setup\<close> (its \<open>Run\<close>, \<open>ensurePublication\<close>, \<open>ensureSlot\<close>, \<open>getSlotLSN\<close>),
    \<open>Snapshot\<close> (\<open>cdc/snapshot.go\<close>) and \<open>Snapshot_Columns\<close> (its columns query against a
    catalog with several schemas). The state of the stream is the record \<open>stream\<close> (relations
    seen, current transaction); the variables of its loop are a second record.
  \<^item> \<open>Metrics\<close> (\<open>metrics/metrics.go\<close>), \<open>Sink\<close> (\<open>sink/sink.go\<close>), \<open>Json\<close> (the JSON tags of
    the structs and the encoding they mean), \<open>Json_Reader\<close> (a consumer that reads an event back),
    \<open>Batch\<close> (\<open>sink/batch.go\<close>), \<open>Batch_Timing\<close>
    (the same with a clock and the deadlines of the timers), \<open>Batch_Liveness\<close> (its infinite fair
    runs), \<open>Go_Float\<close> (rounding to \<open>float64\<close>), \<open>Destinations\<close>
    (\<open>webhook.go\<close>, \<open>webhook_batch.go\<close>, \<open>stdout.go\<close>, \<open>stdout_batch.go\<close>, \<open>kafka.go\<close>) and
    \<open>Decorators\<close> (\<open>sink/metrics.go\<close>, \<open>retry.go\<close>, \<open>dlq.go\<close>). A sink is a record of functions
    on a \<open>world\<close>: the answers of the outside, fixed in advance but arbitrary, and the log of
    what was done to it.
  \<^item> \<open>Pipeline\<close>: stream or snapshot in front of whole chains of sinks. \<open>Restarts\<close>: one process
    after the other on the same slot, with a server that resends what is not confirmed.
    \<open>Snapshot_Stream\<close>: a snapshot and then the stream, on a slot that exists or is created.
    \<open>Test_Servers\<close>: \<open>cmd/flaky-server\<close> and \<open>cmd/webhook-test-server\<close>.

  \<^bold>\<open>Interfaces.\<close> \<open>sink_contract\<close> states what a \<open>Sink\<close> owes its caller (nil means the event has
  been received, in a world that only grows), \<open>batch_contract\<close> the same for a
  \<open>BatchDeliverer\<close>, \<open>failure_contract\<close> for the failure callback of a retry. Decorators are
  proved once against these contracts and give them again (\<open>metrics_decorator\<close>,
  \<open>retrying\<close>, with sublocales); \<open>surviving_sink\<close> adds that a receipt outlives the process.
  The destinations and the decorators of the code are their interpretations, and the properties of the chains rest on the interpreted facts.

  \<^bold>\<open>What the lemmas show.\<close>
  \<^item> Classifier: comments and white space are seen through, the keyword table decides, in any
    case of letters. Wire: the builders never panic and their messages read back.
  \<^item> Proxy: the byte-level loop refines an abstract routing of queries to backends and an abstract
    conversation of requests and replies, which a client reads back from the bytes one reply per
    request; every reply ends with one \<open>ReadyForQuery\<close>, whose status byte is given exactly; a
    transaction stays on the primary; sessions do not influence each other; behind a pool that
    gives out clean connections a transaction falls apart into its statements, and a rollback
    undoes nothing; the spellings of \<open>BEGIN\<close> and the savepoint commands after which a
    transaction is not kept on the primary; a failed transaction that is reported as an open one; a panic while parsing a startup
    message, which ends the process.
  \<^item> Stream: every event handed on is well formed; the message loop delivers what an abstract
    reading of the log gives and the filter passes; acknowledgments of the loop confirm only
    transactions that have been handled, the deferred one does not; the transaction data of events;
    the start position. When two schemas have a table of one name, the snapshot puts values under
    wrong columns.
  \<^item> Sinks: exact behaviour of each destination and decorator, with the jittered waits of the
    retries; every field of an event can be read back from its JSON text; conservation of events
    by the batching sink under every interleaving (rule induction on \<open>batch_step\<close>), that on a
    fair run everything given leaves the buffer, and within \<open>maxWait\<close> when timers are prompt, and where an event can
    be lost or overtaken or a stale timer cuts a batch short.
  \<^item> Pipeline: at-least-once delivery from the log to a 2xx answer or an entry of the
    dead-letter queue, and the same of a snapshot into Kafka. A snapshot followed by the stream
    hands over exactly the rows of the snapshot and what the slot still has from its start
    position, which is everything after the snapshot when the slot was there before it, and
    leaves a gap when \<open>Run\<close> creates the slot (\<open>snapshot_fine\<close> and \<open>streams_from\<close> say what the
    snapshot's queries and the slot give). Restarts: nothing confirmed is
    missing at the destination after any number of kills, shutdowns, lost connections and
    restarts, as long as no run ends with a message it could not process; a shutdown in the
    middle of a delivery, and a message whose text is longer than its piece of the log, break it.
    The server resends whole transactions in commit order and skips only confirmed ones: these
    are hypotheses (\<open>source_ok\<close>, \<open>resends\<close>), not part of the model. \<open>texts_fit\<close> is no promise of
    the server but a condition on the transaction the property is about.

  \<^bold>\<open>Loops.\<close> No definition uses fuel. The message loops recurse on the input that is left:
  bytes in \<open>client_loop\<close>, what the connection does next (\<open>tick\<close>) in \<open>run_loop\<close>, the happenings
  in \<open>accept_loop\<close>, the attempts left in \<open>retry_loop\<close>, the schedule in \<open>interleave\<close>. Where
  the code would block for more input, the list is at its end and the loop's state is given as it is then.

  \<^bold>\<open>Machine integers.\<close> Lengths on the wire, LSNs and status positions are words of their width and
  wrap around. Durations are integers without bound, except in \<open>backoff\<close> and
  \<open>wait_time\<close>, where the conversion of a float that is too large is the point. The floats of the
  retries are exact: integer numerators rounded to 53 bits wherever Go rounds.

  \<^bold>\<open>Not modelled.\<close> pgx, pglogrepl, pgconn, pgtype, the Kafka client, \<open>net/http\<close> and the
  Prometheus client are not part of the repository: what they answer is a parameter (\<open>e_query\<close>,
  \<open>lib\<close>, \<open>tick\<close>, \<open>server\<close>, \<open>snap_server\<close>, \<open>world\<close>). The same holds for the marshalling of
  codec values and time stamps and for Unicode's tables of
  cases and printable runes. Random numbers are answers of the \<open>world\<close>. Log output, ports and time-outs of the test servers are
  left out. \<open>cmd/pgcdc\<close> and \<open>cmd/pgproxy\<close>, which the documents describe, are not in the
  repository. What no definition covers of the Go files that are is comments, imports and
  log lines.
\<close>

end
